theory Spec2Isabelle
  imports Complex_Main "HOL-Library.Multiset"
begin

section \<open>Errors\<close>

text \<open>
  Every exception the modelled code can raise is a value. The two \<open>ValueError\<close>s of
  \<open>CPRArgs.__post_init__\<close> carry the data their messages interpolate.
\<close>

datatype error =
  ValueError_unknown_cu_step_mapper string
| ValueError_both_buffer_sizes int int
| ValueError_sample_larger_than_population
| LookupError
| TaskFailure

fun is_ValueError :: "error \<Rightarrow> bool" where
  "is_ValueError (ValueError_unknown_cu_step_mapper m) = True"
| "is_ValueError (ValueError_both_buffer_sizes b k) = True"
| "is_ValueError ValueError_sample_larger_than_population = True"
| "is_ValueError LookupError = False"
| "is_ValueError TaskFailure = False"

section \<open>periodic\_reward/constants.py\<close>

definition IDENTITY_MAPPER :: string where
  "IDENTITY_MAPPER = ''identity-mapper''"

definition SINGLE_STEP_MAPPER :: string where
  "SINGLE_STEP_MAPPER = ''single-step-mapper''"

definition AVERAGE_REWARD_MAPPER :: string where
  "AVERAGE_REWARD_MAPPER = ''average-reward-mapper''"

definition REWARD_ESTIMATION_LS_MAPPER :: string where
  "REWARD_ESTIMATION_LS_MAPPER = ''reward-estimation-ls-mapper''"

definition REWARD_IMPUTATION_MAPPER :: string where
  "REWARD_IMPUTATION_MAPPER = ''reward-imputation-mapper''"

definition CUMULATIVE_REWARD_MAPPER :: string where
  "CUMULATIVE_REWARD_MAPPER = ''cumulative-reward-mapper''"

text \<open>The tuple \<open>CU_MAPPER_METHODS\<close>, in the order of the source.\<close>

definition CU_MAPPER_METHODS :: "string list" where
  "CU_MAPPER_METHODS =
     [IDENTITY_MAPPER,
      SINGLE_STEP_MAPPER,
      AVERAGE_REWARD_MAPPER,
      REWARD_IMPUTATION_MAPPER,
      REWARD_ESTIMATION_LS_MAPPER,
      CUMULATIVE_REWARD_MAPPER]"

section \<open>periodic\_reward/progargs.py\<close>

text \<open>
  The two dataclasses. Python floats are carried as opaque reals: no claim computes with
  them.
\<close>

record ControlArgs =
  epsilon :: real
  alpha :: real
  gamma :: real

record CPRArgs =
  reward_period :: int
  cu_step_mapper :: string
  buffer_size :: "int option"
  buffer_size_multiplier :: "int option"

text \<open>Truth value of a Python \<open>str\<close>: only the empty string is falsy.\<close>

definition str_truthy :: "string \<Rightarrow> bool" where
  "str_truthy s = (s \<noteq> [])"

text \<open>
  \<open>CPRArgs.__post_init__\<close>: the two checks in the order of the source; \<open>Inr ()\<close> is the
  return without an exception.
\<close>

definition CPRArgs_post_init :: "CPRArgs \<Rightarrow> error + unit" where
  "CPRArgs_post_init self =
     (if str_truthy (cu_step_mapper self) \<and> cu_step_mapper self \<notin> set CU_MAPPER_METHODS
      then Inl (ValueError_unknown_cu_step_mapper (cu_step_mapper self))
      else
        (case (buffer_size self, buffer_size_multiplier self) of
           (Some b, Some k) \<Rightarrow> Inl (ValueError_both_buffer_sizes b k)
         | _ \<Rightarrow> Inr ()))"

text \<open>
  The generated \<open>__init__\<close> of the dataclass: it stores the four fields and then calls
  \<open>__post_init__\<close>; an exception there means that no object is returned.
\<close>

definition CPRArgs_init ::
    "int \<Rightarrow> string \<Rightarrow> int option \<Rightarrow> int option \<Rightarrow> error + CPRArgs" where
  "CPRArgs_init rp m bs bsm =
     (let self = \<lparr>reward_period = rp, cu_step_mapper = m,
                  buffer_size = bs, buffer_size_multiplier = bsm\<rparr>
      in case CPRArgs_post_init self of
           Inl e \<Rightarrow> Inl e
         | Inr u \<Rightarrow> Inr self)"

section \<open>Data of the evaluation job\<close>

text \<open>
  Modelled from the spec: the classes of the module \<open>expconfig\<close> are missing. The records
  below hold what \<open>policyeval/evaljob.py\<close> reads from their objects, named as the source
  names them, and what section 3 says about them: an environment's name and arguments, an
  experiment configuration with its control parameters and optional periodic-reward
  parameters, an experiment pairing the two with its derived learning arguments.
\<close>

record EnvConfig =
  name :: string
  args :: "(string \<times> int) list"

record LearningArgs =
  discount_factor :: real

record ExperimentConfig =
  control_args :: ControlArgs
  cpr_args :: "CPRArgs option"

record Experiment =
  env_config :: EnvConfig
  experiment_config :: ExperimentConfig
  learning_args :: LearningArgs

text \<open>
  Modelled from the spec: the class of what \<open>task.create_env_spec\<close> returns is missing; the
  source reads its \<open>name\<close>, \<open>level\<close> and \<open>mdp\<close> (section 2, EnvSpecResolver).
\<close>

record 'm EnvSpec =
  env_name :: string
  level :: string
  mdp :: "'m"

record RunConfig =
  num_episodes :: int
  log_episode_frequency :: int
  output_dir :: string

text \<open>A numeric array (what the index's \<open>get\<close> returns) and its \<open>tolist()\<close>.\<close>

datatype ndarray = NdArray "real list"

fun tolist :: "ndarray \<Rightarrow> real list" where
  "tolist (NdArray xs) = xs"

text \<open>A value of a context mapping: a plain list or a numeric-array handle.\<close>

datatype ctx_value = PyList "real list" | PyArray ndarray

text \<open>A context mapping is a \<open>dict\<close> literal: its items, looked up with \<open>map_of\<close>.\<close>

type_synonym ctx = "(string \<times> ctx_value) list"

text \<open>
  The fields \<open>experiment\<close> and \<open>context\<close> of a task are \<open>task_experiment\<close> and
  \<open>task_context\<close> here (both words are reserved).
\<close>

record ExperimentTask =
  exp_id :: string
  run_id :: nat
  task_experiment :: Experiment
  run_config :: RunConfig
  task_context :: ctx

type_synonym baseline_key = "string \<times> string \<times> real"

section \<open>The missing collaborators, from the specification\<close>

text \<open>
  Modelled from the spec: \<open>expconfig.create_experiments\<close> is missing. Section 4.2: the full
  cross-product of environments and experiment configs, one Experiment per pair, no
  de-duplication, grouped by environment; the learning arguments derived for an Experiment
  hold the discount factor of its configuration.
\<close>

definition create_experiments ::
    "EnvConfig list \<Rightarrow> ExperimentConfig list \<Rightarrow> Experiment list" where
  "create_experiments envs_configs experiment_configs =
     concat (map (\<lambda>env. map (\<lambda>cfg.
         \<lparr>env_config = env, experiment_config = cfg,
          learning_args = \<lparr>discount_factor = gamma (control_args cfg)\<rparr>\<rparr>)
       experiment_configs) envs_configs)"

text \<open>Decimal digits of a counter, for the experiment ids.\<close>

fun string_of_nat :: "nat \<Rightarrow> string" where
  "string_of_nat n =
     (if n < 10 then [char_of (48 + n)]
      else string_of_nat (n div 10) @ [char_of (48 + n mod 10)])"

declare string_of_nat.simps [simp del]

text \<open>
  Modelled from the spec: \<open>expconfig.generate_tasks_from_experiments_context_and_run_config\<close>
  is missing. Section 4.2: for each Experiment, in order, exactly \<open>num_runs\<close> tasks, with the
  run ids of \<open>[0, num_runs)\<close> and an experiment id formed from the prefix and an increasing
  counter; each task carries the run configuration and the context of its Experiment.
  \<open>num_runs\<close> counts tasks, so it is a natural number.
\<close>

definition tasks_of_experiment ::
    "RunConfig \<Rightarrow> nat \<Rightarrow> string \<Rightarrow> nat \<Rightarrow> Experiment \<times> ctx \<Rightarrow> ExperimentTask list" where
  "tasks_of_experiment rc num_runs task_prefix counter ec =
     map (\<lambda>r. \<lparr>exp_id = task_prefix @ ''-'' @ string_of_nat counter, run_id = r,
                task_experiment = fst ec, run_config = rc, task_context = snd ec\<rparr>)
         [0..<num_runs]"

definition generate_tasks_from_experiments_context_and_run_config ::
    "RunConfig \<Rightarrow> (Experiment \<times> ctx) list \<Rightarrow> nat \<Rightarrow> string \<Rightarrow> ExperimentTask list" where
  "generate_tasks_from_experiments_context_and_run_config rc experiments_and_context
       num_runs task_prefix =
     concat (map (\<lambda>(counter, ec). tasks_of_experiment rc num_runs task_prefix counter ec)
                 (enumerate 0 experiments_and_context))"

text \<open>
  Modelled from the spec: \<open>utils.DynaProgStateValueIndex\<close> is missing. Section 4.1:
  \<open>build_index\<close> goes through the specs and, for each key it has not seen, loads the
  persisted vector stored under the path for that key if there is one, and otherwise
  computes it with the solver and persists it; \<open>get\<close> fails with a lookup error on a key the
  index was not built with. The solver is a parameter, the persistent storage is a map
  from path and key to vector, passed in and returned.
\<close>

type_synonym storage = "string \<times> baseline_key \<rightharpoonup> real list"

type_synonym index = "baseline_key \<rightharpoonup> real list"

fun build_index_loop ::
    "('m \<Rightarrow> real \<Rightarrow> real list) \<Rightarrow> string \<Rightarrow> (string \<times> string \<times> real \<times> 'm) list \<Rightarrow>
     index \<Rightarrow> storage \<Rightarrow> index \<times> storage" where
  "build_index_loop solve path [] idx store = (idx, store)"
| "build_index_loop solve path ((n, l, g, m) # specs) idx store =
     (case idx (n, l, g) of
        Some v \<Rightarrow> build_index_loop solve path specs idx store
      | None \<Rightarrow>
          (case store (path, n, l, g) of
             Some v \<Rightarrow> build_index_loop solve path specs (idx((n, l, g) \<mapsto> v)) store
           | None \<Rightarrow>
               build_index_loop solve path specs
                 (idx((n, l, g) \<mapsto> solve m g))
                 (store((path, n, l, g) \<mapsto> solve m g))))"

definition build_index ::
    "('m \<Rightarrow> real \<Rightarrow> real list) \<Rightarrow> (string \<times> string \<times> real \<times> 'm) list \<Rightarrow> string \<Rightarrow>
     storage \<Rightarrow> index \<times> storage" where
  "build_index solve specs path store = build_index_loop solve path specs Map.empty store"

definition index_get :: "index \<Rightarrow> string \<Rightarrow> string \<Rightarrow> real \<Rightarrow> error + ndarray" where
  "index_get idx n l g =
     (case idx (n, l, g) of None \<Rightarrow> Inl LookupError | Some v \<Rightarrow> Inr (NdArray v))"

section \<open>policyeval/evaljob.py: add\_experiment\_context\<close>

text \<open>
  The first loop: one spec per experiment, in order. \<open>task.create_env_spec\<close> is a
  parameter (a pure function of the environment's name and arguments).
\<close>

definition dyna_prog_spec ::
    "(string \<Rightarrow> (string \<times> int) list \<Rightarrow> 'm EnvSpec) \<Rightarrow> Experiment \<Rightarrow>
     string \<times> string \<times> real \<times> 'm" where
  "dyna_prog_spec create_env_spec e =
     (let env_spec = create_env_spec (name (env_config e)) (args (env_config e))
      in (env_name env_spec, level env_spec, discount_factor (learning_args e), mdp env_spec))"

text \<open>The key of an experiment's baseline: its spec without the \<open>mdp\<close>.\<close>

definition baseline_key_of ::
    "(string \<Rightarrow> (string \<times> int) list \<Rightarrow> 'm EnvSpec) \<Rightarrow> Experiment \<Rightarrow> baseline_key" where
  "baseline_key_of create_env_spec e =
     (case dyna_prog_spec create_env_spec e of (n, l, g, m) \<Rightarrow> (n, l, g))"

text \<open>
  The second loop, over \<open>zip(experiments, dyna_prog_specs)\<close>: a lookup error of \<open>get\<close>
  leaves the function.
\<close>

fun context_loop ::
    "index \<Rightarrow> (Experiment \<times> string \<times> string \<times> real \<times> 'm) list \<Rightarrow>
     (Experiment \<times> ctx) list \<Rightarrow> error + (Experiment \<times> ctx) list" where
  "context_loop idx [] experiments_and_context = Inr experiments_and_context"
| "context_loop idx ((e, n, l, g, m) # rest) experiments_and_context =
     (case index_get idx n l g of
        Inl err \<Rightarrow> Inl err
      | Inr arr \<Rightarrow>
          context_loop idx rest
            (experiments_and_context @
               [(e, [(''dyna_prog_state_values'', PyList (tolist arr))])]))"

definition add_experiment_context ::
    "(string \<Rightarrow> (string \<times> int) list \<Rightarrow> 'm EnvSpec) \<Rightarrow> ('m \<Rightarrow> real \<Rightarrow> real list) \<Rightarrow>
     storage \<Rightarrow> Experiment list \<Rightarrow> string \<Rightarrow> error + (Experiment \<times> ctx) list \<times> storage" where
  "add_experiment_context create_env_spec solve store experiments assets_dir =
     (let dyna_prog_specs = map (dyna_prog_spec create_env_spec) experiments;
          (dyna_prog_index, store') = build_index solve dyna_prog_specs assets_dir store
      in case context_loop dyna_prog_index (zip experiments dyna_prog_specs) [] of
           Inl err \<Rightarrow> Inl err
         | Inr experiments_and_context \<Rightarrow> Inr (experiments_and_context, store'))"

section \<open>policyeval/evaljob.py: create\_tasks\<close>

text \<open>
  \<open>random.sample(population, k)\<close> of the Python standard library, as \<open>create_tasks\<close> calls
  it: with \<open>k = len(population)\<close> the library takes its pool branch (the population is never
  larger than the threshold it compares with, which is at least \<open>21\<close> and at least \<open>3 * k\<close>
  when \<open>k > 5\<close>):
  \<^verbatim>\<open>
    n = len(population)
    if not 0 <= k <= n: raise ValueError("Sample larger than population or is negative")
    result = [None] * k
    pool = list(population)
    for i in range(k):
        j = randbelow(n - i)
        result[i] = pool[j]
        pool[j] = pool[n - i - 1]
    return result
  \<close>
  The random source is explicit: \<open>randbelow\<close> takes the generator's state and a bound and
  returns the drawn number and the next state. \<open>result\<close> is filled from index \<open>0\<close> upwards,
  one cell per iteration, so it is built by appending.
\<close>

definition sample_step ::
    "('g \<Rightarrow> nat \<Rightarrow> nat \<times> 'g) \<Rightarrow> nat \<Rightarrow> nat \<Rightarrow> 'g \<times> 'a list \<times> 'a list \<Rightarrow>
     'g \<times> 'a list \<times> 'a list" where
  "sample_step randbelow n i s =
     (case s of (g, pool, result) \<Rightarrow>
        (case randbelow g (n - i) of (j, g') \<Rightarrow>
           (g', pool[j := pool ! (n - i - 1)], result @ [pool ! j])))"

definition random_sample ::
    "('g \<Rightarrow> nat \<Rightarrow> nat \<times> 'g) \<Rightarrow> 'g \<Rightarrow> 'a list \<Rightarrow> nat \<Rightarrow> error + 'a list \<times> 'g" where
  "random_sample randbelow g population k =
     (let n = length population
      in if n < k then Inl ValueError_sample_larger_than_population
         else (case fold (sample_step randbelow n) [0..<k] (g, population, []) of
                 (g', pool, result) \<Rightarrow> Inr (result, g')))"

text \<open>
  The submission loop at the end of \<open>create_tasks\<close>. \<open>evaluate.remote\<close> is a parameter: it
  takes the worker pool's state and a task and returns the task's future and the pool's
  next state.
\<close>

fun submit_all ::
    "('p \<Rightarrow> 't \<Rightarrow> 'h \<times> 'p) \<Rightarrow> 'p \<Rightarrow> 't list \<Rightarrow> ('t \<times> 'h) list \<Rightarrow> ('t \<times> 'h) list \<times> 'p" where
  "submit_all remote p [] futures = (futures, p)"
| "submit_all remote p (exp_task # rest) futures =
     (case remote p exp_task of (future, p') \<Rightarrow>
        submit_all remote p' rest (futures @ [(exp_task, future)]))"

text \<open>
  \<open>create_tasks\<close>, from the parsed environments and experiment configs on (the two parsers
  read files and are not among the sources). The logging call has no effect on the result.
  The result holds the futures, and the storage, the generator and the pool as the call
  leaves them.
\<close>

definition create_tasks ::
    "(string \<Rightarrow> (string \<times> int) list \<Rightarrow> 'm EnvSpec) \<Rightarrow> ('m \<Rightarrow> real \<Rightarrow> real list) \<Rightarrow>
     ('g \<Rightarrow> nat \<Rightarrow> nat \<times> 'g) \<Rightarrow> ('p \<Rightarrow> ExperimentTask \<Rightarrow> 'h \<times> 'p) \<Rightarrow>
     storage \<Rightarrow> 'g \<Rightarrow> 'p \<Rightarrow>
     EnvConfig list \<Rightarrow> ExperimentConfig list \<Rightarrow> nat \<Rightarrow> int \<Rightarrow> string \<Rightarrow> string \<Rightarrow> string \<Rightarrow> int \<Rightarrow>
     error + (ExperimentTask \<times> 'h) list \<times> storage \<times> 'g \<times> 'p" where
  "create_tasks create_env_spec solve randbelow remote store g p
       envs_configs experiment_configs num_runs n_episodes assets_dir out_dir task_prefix
       log_frequency =
     (let experiments = create_experiments envs_configs experiment_configs
      in case add_experiment_context create_env_spec solve store experiments assets_dir of
           Inl err \<Rightarrow> Inl err
         | Inr (experiments_and_context, store') \<Rightarrow>
             (let experiment_tasks =
                    generate_tasks_from_experiments_context_and_run_config
                      \<lparr>num_episodes = n_episodes, log_episode_frequency = log_frequency,
                       output_dir = out_dir\<rparr>
                      experiments_and_context num_runs task_prefix
              in case random_sample randbelow g experiment_tasks (length experiment_tasks) of
                   Inl err \<Rightarrow> Inl err
                 | Inr (shuffled, g') \<Rightarrow>
                     (case submit_all remote p shuffled [] of
                        (futures, p') \<Rightarrow> Inr (futures, store', g', p'))))"

section \<open>policyeval/evaljob.py: main\<close>

text \<open>
  One notification of the completion loop (one logging call): the finished future, the
  value \<open>ray.get\<close> returns for it, \<open>len(unfinished_tasks)\<close> and \<open>len(futures)\<close>.
\<close>

type_synonym 'h notification = "'h \<times> string \<times> nat \<times> nat"

fun note_future :: "'h notification \<Rightarrow> 'h" where
  "note_future (finished_task, task_id, left, n_futures) = finished_task"

fun note_left :: "'h notification \<Rightarrow> nat" where
  "note_left (finished_task, task_id, left, n_futures) = left"

fun note_total :: "'h notification \<Rightarrow> nat" where
  "note_total (finished_task, task_id, left, n_futures) = n_futures"

text \<open>
  The inner \<open>for\<close> loop. \<open>ray.get\<close> is a parameter; when it raises (the task failed) the
  exception leaves the loop, after the notifications logged so far.
\<close>

fun notify_finished ::
    "('h \<Rightarrow> error + string) \<Rightarrow> nat \<Rightarrow> nat \<Rightarrow> 'h list \<Rightarrow> 'h notification list \<Rightarrow>
     'h notification list \<times> error option" where
  "notify_finished get left n_futures [] notes = (notes, None)"
| "notify_finished get left n_futures (finished_task # rest) notes =
     (case get finished_task of
        Inl err \<Rightarrow> (notes, Some err)
      | Inr task_id \<Rightarrow>
          notify_finished get left n_futures rest (notes @ [(finished_task, task_id, left, n_futures)]))"

text \<open>
  The \<open>while True\<close> loop. \<open>ray.wait\<close> is a parameter: from the pool's state and the
  outstanding futures it returns the finished ones, the unfinished ones and the pool's
  next state. The source calls it with the futures only, so with its default
  \<open>num_returns = 1\<close> and no timeout: a call returns one finished future. The loop need not
  end, so it is a partial function: \<open>None\<close> is a run that never returns.
\<close>

partial_function (option) completion_loop ::
    "('p \<Rightarrow> 'h list \<Rightarrow> ('h list \<times> 'h list) \<times> 'p) \<Rightarrow> ('h \<Rightarrow> error + string) \<Rightarrow> nat \<Rightarrow>
     'p \<Rightarrow> 'h list \<Rightarrow> 'h notification list \<Rightarrow>
     ('h notification list \<times> (error + 'p)) option" where
  "completion_loop wait get n_futures p unfinished notes =
     (case wait p unfinished of ((finished_tasks, unfinished_tasks), p') \<Rightarrow>
        (case notify_finished get (length unfinished_tasks) n_futures finished_tasks notes of
           (notes', Some err) \<Rightarrow> Some (notes', Inl err)
         | (notes', None) \<Rightarrow>
             if length unfinished_tasks = 0 then Some (notes', Inr p')
             else completion_loop wait get n_futures p' unfinished_tasks notes'))"

text \<open>\<open>main\<close>, after \<open>ray.init\<close>: the tasks are created and submitted, then awaited.\<close>

definition main ::
    "(string \<Rightarrow> (string \<times> int) list \<Rightarrow> 'm EnvSpec) \<Rightarrow> ('m \<Rightarrow> real \<Rightarrow> real list) \<Rightarrow>
     ('g \<Rightarrow> nat \<Rightarrow> nat \<times> 'g) \<Rightarrow> ('p \<Rightarrow> ExperimentTask \<Rightarrow> 'h \<times> 'p) \<Rightarrow>
     ('p \<Rightarrow> 'h list \<Rightarrow> ('h list \<times> 'h list) \<times> 'p) \<Rightarrow> ('h \<Rightarrow> error + string) \<Rightarrow>
     storage \<Rightarrow> 'g \<Rightarrow> 'p \<Rightarrow>
     EnvConfig list \<Rightarrow> ExperimentConfig list \<Rightarrow> nat \<Rightarrow> int \<Rightarrow> string \<Rightarrow> string \<Rightarrow> string \<Rightarrow> int \<Rightarrow>
     ('h notification list \<times> (error + 'p)) option" where
  "main create_env_spec solve randbelow remote wait get store g p
       envs_configs experiment_configs num_runs n_episodes assets_dir out_dir task_prefix
       log_frequency =
     (case create_tasks create_env_spec solve randbelow remote store g p
             envs_configs experiment_configs num_runs n_episodes assets_dir out_dir
             task_prefix log_frequency of
        Inl err \<Rightarrow> Some ([], Inl err)
      | Inr (tasks_futures, store', g', p') \<Rightarrow>
          (let futures = map snd tasks_futures
           in completion_loop wait get (length futures) p' futures []))"

section \<open>Construction of CPRArgs\<close>

lemmas mapper_names =
  IDENTITY_MAPPER_def SINGLE_STEP_MAPPER_def AVERAGE_REWARD_MAPPER_def
  REWARD_ESTIMATION_LS_MAPPER_def REWARD_IMPUTATION_MAPPER_def
  CUMULATIVE_REWARD_MAPPER_def

lemma CPRArgs_init_Inr_iff:
  "CPRArgs_init rp m bs bsm =
     Inr \<lparr>reward_period = rp, cu_step_mapper = m,
          buffer_size = bs, buffer_size_multiplier = bsm\<rparr>
   \<longleftrightarrow> (m = [] \<or> m \<in> set CU_MAPPER_METHODS) \<and> (bs = None \<or> bsm = None)"
  by (cases bs; cases bsm)
     (auto simp: CPRArgs_init_def CPRArgs_post_init_def str_truthy_def Let_def)

lemma CPRArgs_init_cases:
  "CPRArgs_init rp m bs bsm =
     Inr \<lparr>reward_period = rp, cu_step_mapper = m,
          buffer_size = bs, buffer_size_multiplier = bsm\<rparr>
   \<or> (\<exists>e. CPRArgs_init rp m bs bsm = Inl e \<and> is_ValueError e)"
  by (cases bs; cases bsm)
     (auto simp: CPRArgs_init_def CPRArgs_post_init_def str_truthy_def Let_def)

lemma CU_MAPPER_METHODS_set:
  "set CU_MAPPER_METHODS =
     {''identity-mapper'', ''single-step-mapper'', ''average-reward-mapper'',
      ''reward-estimation-ls-mapper'', ''reward-imputation-mapper'',
      ''cumulative-reward-mapper''}"
  by (auto simp: CU_MAPPER_METHODS_def mapper_names)

lemma empty_not_in_CU_MAPPER_METHODS: "[] \<notin> set CU_MAPPER_METHODS"
  by (simp add: CU_MAPPER_METHODS_def mapper_names)

lemma bogus_not_in_CU_MAPPER_METHODS: "''bogus-mapper'' \<notin> set CU_MAPPER_METHODS"
  by (simp add: CU_MAPPER_METHODS_def mapper_names)

lemma average_in_CU_MAPPER_METHODS: "''average-reward-mapper'' \<in> set CU_MAPPER_METHODS"
  by (simp add: CU_MAPPER_METHODS_def mapper_names)

text \<open>
  C1. Constructing a \<open>CPRArgs\<close> succeeds if and only if its \<open>cu_step_mapper\<close>, if there is
  one (a non-empty string: the empty string is Python's falsy \<open>str\<close>), is a member of
  \<open>CU_MAPPER_METHODS\<close>, and at most one of \<open>buffer_size\<close> and \<open>buffer_size_multiplier\<close> is
  set; a construction that does not succeed raises a \<open>ValueError\<close> and returns no object.
  With \<open>bogus-mapper\<close> it raises whatever the other fields are; with
  \<open>average-reward-mapper\<close> and at most one buffer field it succeeds.
\<close>

theorem CPRArgs_init_succeeds_iff:
  "((\<exists>self. CPRArgs_init rp m bs bsm = Inr self)
      \<longleftrightarrow> (m = [] \<or> m \<in> set CU_MAPPER_METHODS) \<and> (bs = None \<or> bsm = None))
   \<and> (CPRArgs_init rp m bs bsm =
          Inr \<lparr>reward_period = rp, cu_step_mapper = m,
               buffer_size = bs, buffer_size_multiplier = bsm\<rparr>
        \<or> (\<exists>e. CPRArgs_init rp m bs bsm = Inl e \<and> is_ValueError e))
   \<and> (\<exists>e. CPRArgs_init rp ''bogus-mapper'' bs bsm = Inl e \<and> is_ValueError e)
   \<and> CPRArgs_init rp ''average-reward-mapper'' bs None =
         Inr \<lparr>reward_period = rp, cu_step_mapper = ''average-reward-mapper'',
              buffer_size = bs, buffer_size_multiplier = None\<rparr>
   \<and> CPRArgs_init rp ''average-reward-mapper'' None bsm =
         Inr \<lparr>reward_period = rp, cu_step_mapper = ''average-reward-mapper'',
              buffer_size = None, buffer_size_multiplier = bsm\<rparr>"
proof -
  have iff: "(\<exists>self. CPRArgs_init rp m bs bsm = Inr self)
      \<longleftrightarrow> (m = [] \<or> m \<in> set CU_MAPPER_METHODS) \<and> (bs = None \<or> bsm = None)"
  proof
    assume "\<exists>self. CPRArgs_init rp m bs bsm = Inr self"
    with CPRArgs_init_cases [of rp m bs bsm]
    have "CPRArgs_init rp m bs bsm =
            Inr \<lparr>reward_period = rp, cu_step_mapper = m,
                 buffer_size = bs, buffer_size_multiplier = bsm\<rparr>"
      by auto
    then show "(m = [] \<or> m \<in> set CU_MAPPER_METHODS) \<and> (bs = None \<or> bsm = None)"
      by (simp only: CPRArgs_init_Inr_iff)
  next
    assume "(m = [] \<or> m \<in> set CU_MAPPER_METHODS) \<and> (bs = None \<or> bsm = None)"
    then have "CPRArgs_init rp m bs bsm =
            Inr \<lparr>reward_period = rp, cu_step_mapper = m,
                 buffer_size = bs, buffer_size_multiplier = bsm\<rparr>"
      by (simp only: CPRArgs_init_Inr_iff)
    then show "\<exists>self. CPRArgs_init rp m bs bsm = Inr self"
      by blast
  qed
  have bogus: "\<exists>e. CPRArgs_init rp ''bogus-mapper'' bs bsm = Inl e \<and> is_ValueError e"
    using CPRArgs_init_cases [of rp "''bogus-mapper''" bs bsm]
      CPRArgs_init_Inr_iff [of rp "''bogus-mapper''" bs bsm]
      bogus_not_in_CU_MAPPER_METHODS
    by auto
  have avg1: "CPRArgs_init rp ''average-reward-mapper'' bs None =
         Inr \<lparr>reward_period = rp, cu_step_mapper = ''average-reward-mapper'',
              buffer_size = bs, buffer_size_multiplier = None\<rparr>"
    using CPRArgs_init_Inr_iff [of rp "''average-reward-mapper''" bs None]
      average_in_CU_MAPPER_METHODS
    by simp
  have avg2: "CPRArgs_init rp ''average-reward-mapper'' None bsm =
         Inr \<lparr>reward_period = rp, cu_step_mapper = ''average-reward-mapper'',
              buffer_size = None, buffer_size_multiplier = bsm\<rparr>"
    using CPRArgs_init_Inr_iff [of rp "''average-reward-mapper''" None bsm]
      average_in_CU_MAPPER_METHODS
    by simp
  from iff CPRArgs_init_cases [of rp m bs bsm] bogus avg1 avg2 show ?thesis
    by blast
qed

text \<open>
  C8, as stated, fails at the empty string: it is outside \<open>CU_MAPPER_METHODS\<close>, and the
  construction succeeds.
\<close>

theorem unknown_mapper_not_always_rejected:
  "[] \<notin> set CU_MAPPER_METHODS
   \<and> CPRArgs_init 1 [] None None =
       Inr \<lparr>reward_period = 1, cu_step_mapper = [],
            buffer_size = None, buffer_size_multiplier = None\<rparr>"
  by (simp add: CPRArgs_init_Inr_iff empty_not_in_CU_MAPPER_METHODS)

text \<open>
  C8, amended. \<open>CU_MAPPER_METHODS\<close> holds exactly six distinct names (identity,
  single-step, average-reward, least-squares reward estimation, reward imputation,
  cumulative-reward), and constructing a \<open>CPRArgs\<close> with a non-empty \<open>cu_step_mapper\<close>
  outside this set raises a \<open>ValueError\<close>.
\<close>

theorem six_mappers_and_unknown_name_rejected:
  "set CU_MAPPER_METHODS =
     {''identity-mapper'', ''single-step-mapper'', ''average-reward-mapper'',
      ''reward-estimation-ls-mapper'', ''reward-imputation-mapper'',
      ''cumulative-reward-mapper''}
   \<and> length CU_MAPPER_METHODS = 6
   \<and> distinct CU_MAPPER_METHODS
   \<and> (m \<noteq> [] \<and> m \<notin> set CU_MAPPER_METHODS \<longrightarrow>
        (\<exists>e. CPRArgs_init rp m bs bsm = Inl e \<and> is_ValueError e))"
proof -
  have "length CU_MAPPER_METHODS = 6" "distinct CU_MAPPER_METHODS"
    by (simp_all add: CU_MAPPER_METHODS_def mapper_names)
  moreover have "m \<noteq> [] \<and> m \<notin> set CU_MAPPER_METHODS \<longrightarrow>
        (\<exists>e. CPRArgs_init rp m bs bsm = Inl e \<and> is_ValueError e)"
    using CPRArgs_init_cases [of rp m bs bsm] CPRArgs_init_Inr_iff [of rp m bs bsm]
    by auto
  ultimately show ?thesis
    using CU_MAPPER_METHODS_set by blast
qed

theorem six_mappers_and_unknown_name_rejected_witness:
  "''bogus-mapper'' \<noteq> [] \<and> ''bogus-mapper'' \<notin> set CU_MAPPER_METHODS
   \<and> (\<exists>e. CPRArgs_init 1 ''bogus-mapper'' (Some 10) None = Inl e \<and> is_ValueError e)"
  using six_mappers_and_unknown_name_rejected [of "''bogus-mapper''" 1 "Some 10" None]
    bogus_not_in_CU_MAPPER_METHODS
  by simp

text \<open>
  C9. The empty string is not in \<open>CU_MAPPER_METHODS\<close>, and with an empty \<open>cu_step_mapper\<close>
  the membership check is skipped: \<open>__post_init__\<close> then only checks the two buffer fields,
  so a \<open>CPRArgs\<close> with the empty string as its method is constructed without error.
\<close>

theorem empty_cu_step_mapper_accepted:
  "[] \<notin> set CU_MAPPER_METHODS
   \<and> CPRArgs_post_init (self\<lparr>cu_step_mapper := []\<rparr>) =
       (case (buffer_size self, buffer_size_multiplier self) of
          (Some b, Some k) \<Rightarrow> Inl (ValueError_both_buffer_sizes b k)
        | _ \<Rightarrow> Inr ())
   \<and> CPRArgs_init rp [] bs None =
       Inr \<lparr>reward_period = rp, cu_step_mapper = [],
            buffer_size = bs, buffer_size_multiplier = None\<rparr>
   \<and> CPRArgs_init rp [] None bsm =
       Inr \<lparr>reward_period = rp, cu_step_mapper = [],
            buffer_size = None, buffer_size_multiplier = bsm\<rparr>"
  by (simp add: CPRArgs_init_Inr_iff empty_not_in_CU_MAPPER_METHODS
      CPRArgs_post_init_def str_truthy_def)

section \<open>The shuffle\<close>

lemma take_update_last:
  assumes "Suc m \<le> length pool" "j \<le> m"
  shows "mset (take m (pool[j := pool ! m])) + {#pool ! j#} = mset (take (Suc m) pool)"
proof (cases "j = m")
  case True
  then show ?thesis using assms by (simp add: take_Suc_conv_app_nth)
next
  case False
  with assms have jm: "j < m" by simp
  have "take m (pool[j := pool ! m]) = (take m pool)[j := pool ! m]"
    by (simp add: take_update_swap)
  moreover have "mset ((take m pool)[j := pool ! m]) = add_mset (pool ! m) (mset (take m pool) - {#pool ! j#})"
    using jm assms by (simp add: mset_update)
  moreover have "pool ! j \<in># mset (take m pool)"
    using jm assms by (metis length_take min.absorb2 nth_mem nth_take set_mset_mset Suc_leD)
  ultimately show ?thesis using assms
    by (simp add: take_Suc_conv_app_nth)
qed

lemma sample_fold_inv:
  assumes rb: "\<And>g m. 0 < m \<Longrightarrow> fst (randbelow g m) < m"
    and k: "k \<le> length population"
  shows "case fold (sample_step randbelow (length population)) [0..<k] (g, population, []) of
           (g', pool, result) \<Rightarrow>
             length pool = length population \<and> length result = k \<and>
             mset result + mset (take (length population - k) pool) = mset population"
  using k
proof (induction k)
  case 0
  then show ?case by simp
next
  case (Suc k)
  obtain g' pool result where f: "fold (sample_step randbelow (length population)) [0..<k] (g, population, []) = (g', pool, result)"
    by (metis prod_cases3)
  with Suc have inv: "length pool = length population" "length result = k"
    "mset result + mset (take (length population - k) pool) = mset population"
    by auto
  obtain j g'' where r: "randbelow g' (length population - k) = (j, g'')"
    by (metis surj_pair)
  have jlt: "j < length population - k"
    using rb [of "length population - k" g'] r Suc.prems by simp
  define m where "m = length population - k - 1"
  have m: "Suc m = length population - k" "length population - Suc k = m"
    using Suc.prems by (simp_all add: m_def)
  have "mset (take m (pool[j := pool ! m])) + {#pool ! j#} = mset (take (Suc m) pool)"
    using take_update_last [of m pool j] jlt m inv(1) by simp
  then have "mset result + (mset (take m (pool[j := pool ! m])) + {#pool ! j#}) = mset population"
    using inv(3) m(1) by simp
  then have ms: "mset (result @ [pool ! j]) + mset (take m (pool[j := pool ! m])) = mset population"
    by (simp add: ac_simps)
  have "fold (sample_step randbelow (length population)) [0..<Suc k] (g, population, []) =
          sample_step randbelow (length population) k (g', pool, result)"
    using f by simp
  also have "\<dots> = (g'', pool[j := pool ! m], result @ [pool ! j])"
    using r by (simp add: sample_step_def m_def)
  finally show ?case
    using ms inv(1,2) m(2) by simp
qed

lemma random_sample_perm:
  assumes rb: "\<And>g m. 0 < m \<Longrightarrow> fst (randbelow g m) < m"
  shows "\<exists>shuffled g'. random_sample randbelow g tasks (length tasks) = Inr (shuffled, g') \<and>
     mset shuffled = mset tasks \<and> length shuffled = length tasks"
proof -
  obtain g' pool result where f: "fold (sample_step randbelow (length tasks)) [0..<length tasks] (g, tasks, []) = (g', pool, result)"
    by (metis prod_cases3)
  with sample_fold_inv [of randbelow "length tasks" tasks g] rb
  have "length result = length tasks" "mset result = mset tasks" by auto
  with f show ?thesis by (simp add: random_sample_def)
qed

lemma sample_fold_length:
  "case fold (sample_step randbelow n) [0..<k] (g, population, []) of
     (g', pool, result) \<Rightarrow> length result = k"
proof (induction k)
  case 0
  then show ?case by simp
next
  case (Suc k)
  obtain g' pool result where
    f: "fold (sample_step randbelow n) [0..<k] (g, population, []) = (g', pool, result)"
    by (metis prod_cases3)
  obtain j g'' where r: "randbelow g' (n - k) = (j, g'')"
    by (metis surj_pair)
  from Suc f have len: "length result = k" by simp
  have "fold (sample_step randbelow n) [0..<Suc k] (g, population, []) =
          sample_step randbelow n k (g', pool, result)"
    using f by simp
  also have "\<dots> = (g'', pool[j := pool ! (n - k - 1)], result @ [pool ! j])"
    using r by (simp add: sample_step_def)
  finally show ?case using len by simp
qed

lemma random_sample_length:
  "\<exists>shuffled g'. random_sample randbelow g tasks (length tasks) = Inr (shuffled, g') \<and>
     length shuffled = length tasks"
proof -
  obtain g' pool result where
    f: "fold (sample_step randbelow (length tasks)) [0..<length tasks] (g, tasks, []) = (g', pool, result)"
    by (metis prod_cases3)
  with sample_fold_length [where randbelow = randbelow and n = "length tasks"
      and k = "length tasks" and g = g and population = tasks]
  have "length result = length tasks" by simp
  with f show ?thesis by (simp add: random_sample_def)
qed

text \<open>
  C4. The shuffle of \<open>create_tasks\<close>, \<open>random.sample(tasks, len(tasks))\<close>, returns a
  permutation of its input, whatever the random source draws within its bounds: the same
  multiset of tasks and the same length; on the empty sequence it returns the empty
  sequence.
\<close>

theorem random_sample_is_permutation:
  assumes "\<And>g m. 0 < m \<Longrightarrow> fst (randbelow g m) < m"
  shows "(\<exists>shuffled g'. random_sample randbelow g tasks (length tasks) = Inr (shuffled, g') \<and>
            mset shuffled = mset tasks \<and> length shuffled = length tasks)
         \<and> random_sample randbelow g [] 0 = Inr ([], g)"
  using random_sample_perm [of randbelow g tasks] assms
  by (simp add: random_sample_def)

theorem random_sample_is_permutation_witness:
  "random_sample (\<lambda>g m. (g mod m, Suc g)) (7::nat) [10, 20, 30::nat] (length [10, 20, 30::nat])
     = Inr ([20, 10, 30], 10)
   \<and> mset [20, 10, 30::nat] = mset [10, 20, 30]"
proof -
  have rb: "\<And>g m. 0 < m \<Longrightarrow> fst ((\<lambda>g m. (g mod m, Suc g)) g m) < m"
    by simp
  have v: "random_sample (\<lambda>g m. (g mod m, Suc g)) (7::nat) [10, 20, 30::nat] (length [10, 20, 30::nat])
     = Inr ([20, 10, 30], 10)"
    by code_simp
  from random_sample_is_permutation [of "\<lambda>g m. (g mod m, Suc g)" 7 "[10, 20, 30::nat]", OF rb] v
  show ?thesis by simp
qed

section \<open>The completion loop\<close>

lemma wait_shrinks:
  assumes part: "\<And>p hs fin unf p'. wait p hs = ((fin, unf), p') \<Longrightarrow> mset fin + mset unf = mset hs"
    and ne: "\<And>p hs fin unf p'. wait p hs = ((fin, unf), p') \<Longrightarrow> hs \<noteq> [] \<Longrightarrow> fin \<noteq> []"
    and w: "wait p hs = ((fin, unf), p')"
  shows "length fin + length unf = length hs" and "hs \<noteq> [] \<Longrightarrow> length unf < length hs"
proof -
  have "mset fin + mset unf = mset hs" using part [OF w] .
  then have "size (mset fin + mset unf) = size (mset hs)" by simp
  then show len: "length fin + length unf = length hs" by simp
  assume "hs \<noteq> []"
  then have "fin \<noteq> []" using ne [OF w] by simp
  then have "0 < length fin" by simp
  with len show "length unf < length hs" by linarith
qed

lemma completion_loop_returns:
  assumes part: "\<And>p hs fin unf p'. wait p hs = ((fin, unf), p') \<Longrightarrow> mset fin + mset unf = mset hs"
    and ne: "\<And>p hs fin unf p'. wait p hs = ((fin, unf), p') \<Longrightarrow> hs \<noteq> [] \<Longrightarrow> fin \<noteq> []"
  shows "\<exists>r. completion_loop wait get n p unfinished acc = Some r"
proof (induction "length unfinished" arbitrary: unfinished p acc rule: less_induct)
  case less
  obtain fin unf p' where w: "wait p unfinished = ((fin, unf), p')"
    by (metis surj_pair)
  obtain acc' r where nf: "notify_finished get (length unf) n fin acc = (acc', r)"
    by (metis surj_pair)
  show ?case
  proof (cases r)
    case (Some err)
    then show ?thesis using w nf by (subst completion_loop.simps) simp
  next
    case None
    show ?thesis
    proof (cases "length unf = 0")
      case True
      then show ?thesis using w nf None by (subst completion_loop.simps) simp
    next
      case False
      have "length fin + length unf = length unfinished"
        using wait_shrinks(1) [of wait, OF part ne w] by simp
      with False have "unfinished \<noteq> []" by auto
      then have "length unf < length unfinished"
        using wait_shrinks(2) [of wait, OF part ne w] by simp
      from less [OF this] obtain r' where "completion_loop wait get n p' unf acc' = Some r'"
        by blast
      then show ?thesis using w nf None False by (subst completion_loop.simps) simp
    qed
  qed
qed


lemma notify_finished_ok:
  assumes "\<And>h. h \<in> set fin \<Longrightarrow> \<exists>tid. get h = Inr tid"
  shows "\<exists>batch. notify_finished get left n fin acc = (acc @ batch, None) \<and>
           map note_future batch = fin \<and>
           map note_left batch = replicate (length fin) left \<and>
           map note_total batch = replicate (length fin) n"
  using assms
proof (induction fin arbitrary: acc)
  case Nil
  then show ?case by simp
next
  case (Cons h fin)
  from Cons.prems obtain tid where g: "get h = Inr tid" by auto
  from Cons.IH [of "acc @ [(h, tid, left, n)]"] Cons.prems
  obtain batch where b:
    "notify_finished get left n fin (acc @ [(h, tid, left, n)]) = ((acc @ [(h, tid, left, n)]) @ batch, None)"
    "map note_future batch = fin"
    "map note_left batch = replicate (length fin) left"
    "map note_total batch = replicate (length fin) n"
    by auto
  show ?case
    using g b by (intro exI [of _ "(h, tid, left, n) # batch"]) simp
qed

lemma completion_loop_notifications:
  assumes part: "\<And>p hs fin unf p'. wait p hs = ((fin, unf), p') \<Longrightarrow> mset fin + mset unf = mset hs"
    and ne: "\<And>p hs fin unf p'. wait p hs = ((fin, unf), p') \<Longrightarrow> hs \<noteq> [] \<Longrightarrow> fin \<noteq> []"
    and ok: "\<And>h. h \<in> set unfinished \<Longrightarrow> \<exists>tid. get h = Inr tid"
  shows "\<exists>new p'. completion_loop wait get n p unfinished acc = Some (acc @ new, Inr p') \<and>
           mset (map note_future new) = mset unfinished \<and>
           sorted (rev (map note_left new)) \<and>
           (\<forall>x \<in> set new. note_left x < length unfinished) \<and>
           map note_total new = replicate (length unfinished) n \<and>
           (new \<noteq> [] \<longrightarrow> note_left (last new) = 0) \<and>
           ((\<forall>q hs fin unf q'. wait q hs = ((fin, unf), q') \<longrightarrow> length fin \<le> 1) \<longrightarrow>
              map note_left new = rev [0..<length unfinished])"
  using ok
proof (induction "length unfinished" arbitrary: unfinished p acc rule: less_induct)
  case less
  obtain fin unf p' where w: "wait p unfinished = ((fin, unf), p')"
    by (metis surj_pair)
  have ms: "mset fin + mset unf = mset unfinished" using part [OF w] .
  have len: "length fin + length unf = length unfinished"
    using wait_shrinks(1) [of wait, OF part ne w] by simp
  have "set_mset (mset fin + mset unf) = set_mset (mset unfinished)" using ms by simp
  then have sets: "set fin \<union> set unf = set unfinished" by simp
  then have okfin: "\<And>h. h \<in> set fin \<Longrightarrow> \<exists>tid. get h = Inr tid"
    using less.prems by blast
  from notify_finished_ok [of fin get "length unf" n acc, OF okfin]
  obtain batch where b:
    "notify_finished get (length unf) n fin acc = (acc @ batch, None)"
    "map note_future batch = fin"
    "map note_left batch = replicate (length fin) (length unf)"
    "map note_total batch = replicate (length fin) n"
    by blast
  have lb: "length batch = length fin" using b(2) by (metis length_map)
  show ?case
  proof (cases "length unf = 0")
    case True
    then have unf: "unf = []" by simp
    have run: "completion_loop wait get n p unfinished acc = Some (acc @ batch, Inr p')"
      using w b(1) True by (subst completion_loop.simps) simp
    have l0: "map note_left batch = replicate (length unfinished) 0"
      using b(3) len unf by simp
    have 1: "mset (map note_future batch) = mset unfinished" using b(2) ms unf by simp
    have 2: "sorted (rev (map note_left batch))" using l0 by simp
    have 3: "\<forall>x \<in> set batch. note_left x < length unfinished"
    proof
      fix x assume x: "x \<in> set batch"
      then have "note_left x \<in> set (map note_left batch)" by simp
      then have "note_left x = 0" using l0 by (simp split: if_splits)
      moreover have "0 < length unfinished" using x lb len unf by (cases batch) auto
      ultimately show "note_left x < length unfinished" by simp
    qed
    have 4: "map note_total batch = replicate (length unfinished) n"
      using b(4) len unf by simp
    have 5: "batch \<noteq> [] \<longrightarrow> note_left (last batch) = 0"
    proof
      assume "batch \<noteq> []"
      then have "last batch \<in> set batch" by simp
      then have "note_left (last batch) \<in> set (map note_left batch)" by simp
      then show "note_left (last batch) = 0" using l0 by (simp split: if_splits)
    qed
    have 6: "(\<forall>q hs fin unf q'. wait q hs = ((fin, unf), q') \<longrightarrow> length fin \<le> 1) \<longrightarrow>
              map note_left batch = rev [0..<length unfinished]"
    proof
      assume "\<forall>q hs fin unf q'. wait q hs = ((fin, unf), q') \<longrightarrow> length fin \<le> 1"
      with w have "length fin \<le> 1" by blast
      with len unf have "length unfinished \<le> 1" by simp
      then have "length unfinished = 0 \<or> length unfinished = 1" by linarith
      then show "map note_left batch = rev [0..<length unfinished]"
        using l0 by auto
    qed
    from run 1 2 3 4 5 6 show ?thesis by blast
  next
    case False
    with len have une: "unfinished \<noteq> []" by auto
    then have lt: "length unf < length unfinished"
      using wait_shrinks(2) [of wait, OF part ne w] by simp
    have finne: "fin \<noteq> []" using ne [OF w une] .
    have okunf: "\<And>h. h \<in> set unf \<Longrightarrow> \<exists>tid. get h = Inr tid"
      using less.prems sets by blast
    from less.hyps [OF lt okunf, of p' "acc @ batch"]
    obtain new2 p'' where r:
      "completion_loop wait get n p' unf (acc @ batch) = Some ((acc @ batch) @ new2, Inr p'')"
      "mset (map note_future new2) = mset unf"
      "sorted (rev (map note_left new2))"
      "\<forall>x \<in> set new2. note_left x < length unf"
      "map note_total new2 = replicate (length unf) n"
      "new2 \<noteq> [] \<longrightarrow> note_left (last new2) = 0"
      "(\<forall>q hs fin unf q'. wait q hs = ((fin, unf), q') \<longrightarrow> length fin \<le> 1) \<longrightarrow>
              map note_left new2 = rev [0..<length unf]"
      by blast
    have run: "completion_loop wait get n p unfinished acc = Some (acc @ (batch @ new2), Inr p'')"
      using w b(1) False r(1) by (subst completion_loop.simps) simp
    have 1: "mset (map note_future (batch @ new2)) = mset unfinished"
      using b(2) r(2) ms by simp
    have 2: "sorted (rev (map note_left (batch @ new2)))"
      using r(3) r(4) b(3) by (auto simp: sorted_append less_imp_le)
    have 3: "\<forall>x \<in> set (batch @ new2). note_left x < length unfinished"
    proof
      fix x assume "x \<in> set (batch @ new2)"
      then consider "x \<in> set batch" | "x \<in> set new2" by auto
      then show "note_left x < length unfinished"
      proof cases
        case 1
        then have "note_left x \<in> set (map note_left batch)" by simp
        then have "note_left x = length unf" using b(3) by (simp split: if_splits)
        then show ?thesis using lt by simp
      next
        case 2
        then show ?thesis using r(4) lt by fastforce
      qed
    qed
    have 4: "map note_total (batch @ new2) = replicate (length unfinished) n"
      using b(4) r(5) len by (simp add: replicate_add [symmetric])
    have "new2 \<noteq> []" using r(2) False by auto
    then have 5: "batch @ new2 \<noteq> [] \<longrightarrow> note_left (last (batch @ new2)) = 0"
      using r(6) by simp
    have 6: "(\<forall>q hs fin unf q'. wait q hs = ((fin, unf), q') \<longrightarrow> length fin \<le> 1) \<longrightarrow>
              map note_left (batch @ new2) = rev [0..<length unfinished]"
    proof
      assume one: "\<forall>q hs fin unf q'. wait q hs = ((fin, unf), q') \<longrightarrow> length fin \<le> 1"
      with w have "length fin \<le> 1" by blast
      with finne have "length fin = 1" by (cases fin) auto
      with len have "length unfinished = Suc (length unf)" by simp
      then show "map note_left (batch @ new2) = rev [0..<length unfinished]"
        using one r(7) b(3) \<open>length fin = 1\<close> by simp
    qed
    from run 1 2 3 4 5 6 show ?thesis by blast
  qed
qed


lemma one_at_a_time_partition:
  "(\<lambda>p hs. ((take 1 hs, drop 1 hs), p)) p hs = ((fin, unf), p') \<Longrightarrow>
     mset fin + mset unf = mset hs"
  by (metis (mono_tags, lifting) Pair_inject append_take_drop_id mset_append)

lemma one_at_a_time_nonempty:
  "(\<lambda>p hs. ((take 1 hs, drop 1 hs), p)) p hs = ((fin, unf), p') \<Longrightarrow> hs \<noteq> [] \<Longrightarrow> fin \<noteq> []"
  by auto

text \<open>
  C5. The completion loop of \<open>main\<close> returns for every list of submitted futures, when each
  \<open>ray.wait\<close> splits the outstanding futures into finished and unfinished ones and finds at
  least one finished among a non-empty list: each such call leaves fewer outstanding
  futures than it was given.
\<close>

theorem completion_loop_terminates:
  assumes "\<And>p hs fin unf p'. wait p hs = ((fin, unf), p') \<Longrightarrow> mset fin + mset unf = mset hs"
    and "\<And>p hs fin unf p'. wait p hs = ((fin, unf), p') \<Longrightarrow> hs \<noteq> [] \<Longrightarrow> fin \<noteq> []"
  shows "(\<exists>r. completion_loop wait get (length futures) p futures [] = Some r)
         \<and> (wait q hs = ((fin, unf), q') \<and> hs \<noteq> [] \<longrightarrow> length unf < length hs)"
proof
  show "\<exists>r. completion_loop wait get (length futures) p futures [] = Some r"
    using completion_loop_returns [of wait get "length futures" p futures "[]"] assms
    by blast
  show "wait q hs = ((fin, unf), q') \<and> hs \<noteq> [] \<longrightarrow> length unf < length hs"
    using wait_shrinks(2) [of wait q hs fin unf q'] assms by blast
qed

theorem completion_loop_terminates_witness:
  "(\<exists>r. completion_loop (\<lambda>p hs. ((take 1 hs, drop 1 hs), p)) (\<lambda>h. Inr ''env/0'')
          (length [7, 8, 9::nat]) () [7, 8, 9::nat] [] = Some r)
   \<and> length (drop 1 [7, 8, 9::nat]) < length [7, 8, 9::nat]"
proof -
  have part: "\<And>p hs fin unf p'.
      (\<lambda>(p::unit) (hs::nat list). ((take 1 hs, drop 1 hs), p)) p hs = ((fin, unf), p') \<Longrightarrow>
      mset fin + mset unf = mset hs"
    by (rule one_at_a_time_partition)
  have ne: "\<And>p hs fin unf p'.
      (\<lambda>(p::unit) (hs::nat list). ((take 1 hs, drop 1 hs), p)) p hs = ((fin, unf), p') \<Longrightarrow>
      hs \<noteq> [] \<Longrightarrow> fin \<noteq> []"
    by (rule one_at_a_time_nonempty)
  from completion_loop_terminates [where wait = "\<lambda>(p::unit) (hs::nat list). ((take 1 hs, drop 1 hs), p)"
      and get = "\<lambda>h. Inr ''env/0''" and futures = "[7, 8, 9::nat]" and p = "()" and q = "()"
      and hs = "[7, 8, 9::nat]" and fin = "[7]" and unf = "[8, 9]" and q' = "()", OF part ne]
  show ?thesis by simp
qed

text \<open>
  C2. When each \<open>ray.wait\<close> splits the outstanding futures into finished and unfinished
  ones, with at least one finished among a non-empty list and, as \<open>num_returns = 1\<close> has
  it, at most one per call, and \<open>ray.get\<close> returns for every submitted future, the
  completion loop over \<open>N\<close> futures returns after exactly \<open>N\<close> notifications, one for each
  future, and the numbers of futures left that it reports are \<open>N - 1, ..., 0\<close>: strictly
  decreasing, down to zero.
\<close>

theorem completion_loop_notifies_each_once:
  assumes "\<And>p hs fin unf p'. wait p hs = ((fin, unf), p') \<Longrightarrow> mset fin + mset unf = mset hs"
    and "\<And>p hs fin unf p'. wait p hs = ((fin, unf), p') \<Longrightarrow> hs \<noteq> [] \<Longrightarrow> fin \<noteq> []"
    and "\<And>p hs fin unf p'. wait p hs = ((fin, unf), p') \<Longrightarrow> length fin \<le> 1"
    and "\<And>h. h \<in> set futures \<Longrightarrow> \<exists>tid. get h = Inr tid"
  shows "\<exists>notifications p'.
           completion_loop wait get (length futures) p futures [] = Some (notifications, Inr p') \<and>
           length notifications = length futures \<and>
           mset (map note_future notifications) = mset futures \<and>
           map note_left notifications = rev [0..<length futures] \<and>
           sorted_wrt (\<lambda>a b. b < a) (map note_left notifications) \<and>
           (notifications \<noteq> [] \<longrightarrow> note_left (last notifications) = 0) \<and>
           map note_total notifications = replicate (length futures) (length futures)"
proof -
  have "\<exists>new p'. completion_loop wait get (length futures) p futures [] = Some ([] @ new, Inr p') \<and>
           mset (map note_future new) = mset futures \<and>
           sorted (rev (map note_left new)) \<and>
           (\<forall>x \<in> set new. note_left x < length futures) \<and>
           map note_total new = replicate (length futures) (length futures) \<and>
           (new \<noteq> [] \<longrightarrow> note_left (last new) = 0) \<and>
           ((\<forall>q hs fin unf q'. wait q hs = ((fin, unf), q') \<longrightarrow> length fin \<le> 1) \<longrightarrow>
              map note_left new = rev [0..<length futures])"
    by (rule completion_loop_notifications [where wait = wait]) (fact assms)+
  then obtain new p' where r:
    "completion_loop wait get (length futures) p futures [] = Some ([] @ new, Inr p')"
    "mset (map note_future new) = mset futures"
    "map note_total new = replicate (length futures) (length futures)"
    "new \<noteq> [] \<longrightarrow> note_left (last new) = 0"
    "(\<forall>q hs fin unf q'. wait q hs = ((fin, unf), q') \<longrightarrow> length fin \<le> 1) \<longrightarrow>
              map note_left new = rev [0..<length futures]"
    by blast
  from assms(3) have "\<forall>q hs fin unf q'. wait q hs = ((fin, unf), q') \<longrightarrow> length fin \<le> 1"
    by blast
  with r(5) have counts: "map note_left new = rev [0..<length futures]" by blast
  have "sorted_wrt (\<lambda>a b. b < a) (rev [0..<length futures])"
    by (simp add: sorted_wrt_rev)
  with counts have strict: "sorted_wrt (\<lambda>a b. b < a) (map note_left new)" by simp
  from r(2) have "size (mset (map note_future new)) = size (mset futures)" by simp
  then have len: "length new = length futures" by simp
  from r(1) have run: "completion_loop wait get (length futures) p futures [] = Some (new, Inr p')"
    by simp
  from run len r(2) counts strict r(4) r(3) show ?thesis by blast
qed

theorem completion_loop_notifies_each_once_witness:
  "completion_loop (\<lambda>p hs. ((take 1 hs, drop 1 hs), p)) (\<lambda>h. Inr ''env/0'')
      (length [7, 8, 9::nat]) () [7, 8, 9::nat] []
     = Some ([(7, ''env/0'', 2, 3), (8, ''env/0'', 1, 3), (9, ''env/0'', 0, 3)], Inr ())
   \<and> map note_future [(7::nat, ''env/0'', 2::nat, 3::nat), (8, ''env/0'', 1, 3), (9, ''env/0'', 0, 3)]
       = [7, 8, 9]
   \<and> map note_left [(7::nat, ''env/0'', 2::nat, 3::nat), (8, ''env/0'', 1, 3), (9, ''env/0'', 0, 3)]
       = [2, 1, 0]"
proof -
  have part: "\<And>p hs fin unf p'.
      (\<lambda>(p::unit) (hs::nat list). ((take 1 hs, drop 1 hs), p)) p hs = ((fin, unf), p') \<Longrightarrow>
      mset fin + mset unf = mset hs"
    by (rule one_at_a_time_partition)
  have ne: "\<And>p hs fin unf p'.
      (\<lambda>(p::unit) (hs::nat list). ((take 1 hs, drop 1 hs), p)) p hs = ((fin, unf), p') \<Longrightarrow>
      hs \<noteq> [] \<Longrightarrow> fin \<noteq> []"
    by (rule one_at_a_time_nonempty)
  have one: "\<And>p hs fin unf p'.
      (\<lambda>(p::unit) (hs::nat list). ((take 1 hs, drop 1 hs), p)) p hs = ((fin, unf), p') \<Longrightarrow>
      length fin \<le> 1"
    by auto
  have ok: "\<And>h. h \<in> set [7, 8, 9::nat] \<Longrightarrow>
      \<exists>tid. (\<lambda>h. Inr ''env/0'' :: error + string) h = Inr tid"
    by simp
  have v: "completion_loop (\<lambda>p hs. ((take 1 hs, drop 1 hs), p)) (\<lambda>h. Inr ''env/0'')
      (length [7, 8, 9::nat]) () [7, 8, 9::nat] []
     = Some ([(7, ''env/0'', 2, 3), (8, ''env/0'', 1, 3), (9, ''env/0'', 0, 3)], Inr ())"
    by (simp add: completion_loop.simps)
  from completion_loop_notifies_each_once
      [where wait = "\<lambda>(p::unit) (hs::nat list). ((take 1 hs, drop 1 hs), p)"
        and get = "\<lambda>h. Inr ''env/0''" and futures = "[7, 8, 9::nat]" and p = "()",
        OF part ne one ok] v
  show ?thesis by auto
qed

section \<open>The baseline index and the contexts\<close>

lemma build_index_loop_keeps:
  "idx k = Some v \<Longrightarrow> fst (build_index_loop solve path specs idx store) k = Some v"
proof (induction specs arbitrary: idx store)
  case Nil
  then show ?case by simp
next
  case (Cons s specs)
  obtain n l g m where s: "s = (n, l, g, m)" by (cases s) auto
  show ?case
    using Cons.prems
    by (auto simp: s split: option.splits intro!: Cons.IH)
qed

lemma build_index_loop_covers:
  "(n, l, g, m) \<in> set specs \<Longrightarrow>
     \<exists>v. fst (build_index_loop solve path specs idx store) (n, l, g) = Some v"
proof (induction specs arbitrary: idx store)
  case Nil
  then show ?case by simp
next
  case (Cons s specs)
  obtain n' l' g' m' where s: "s = (n', l', g', m')" by (cases s) auto
  show ?case
  proof (cases "(n, l, g, m) \<in> set specs")
    case True
    then show ?thesis
      using Cons.IH by (simp add: s split: option.splits)
  next
    case False
    with Cons.prems s have eq: "n' = n" "l' = l" "g' = g" by auto
    have "\<exists>idx' store' v. build_index_loop solve path (s # specs) idx store =
              build_index_loop solve path specs idx' store' \<and> idx' (n, l, g) = Some v"
      by (cases "idx (n, l, g)"; cases "store (path, n, l, g)") (auto simp: s eq)
    then obtain idx' store' v where
      step: "build_index_loop solve path (s # specs) idx store =
               build_index_loop solve path specs idx' store'"
      and v: "idx' (n, l, g) = Some v"
      by blast
    from build_index_loop_keeps [where idx = idx' and k = "(n, l, g)" and v = v
        and solve = solve and path = path and specs = specs and store = store'] v step
    show ?thesis by simp
  qed
qed

lemma context_loop_ok:
  assumes "\<And>e n l g m. (e, n, l, g, m) \<in> set zs \<Longrightarrow> \<exists>v. idx (n, l, g) = Some v"
  shows "context_loop idx zs acc =
           Inr (acc @ map (\<lambda>(e, n, l, g, m).
                  (e, [(''dyna_prog_state_values'', PyList (the (idx (n, l, g))))])) zs)"
  using assms
proof (induction zs arbitrary: acc)
  case Nil
  then show ?case by simp
next
  case (Cons z zs)
  obtain e n l g m where z: "z = (e, n, l, g, m)" by (cases z) auto
  from Cons.prems [of e n l g m] z obtain v where v: "idx (n, l, g) = Some v" by auto
  have "context_loop idx zs (acc @ [(e, [(''dyna_prog_state_values'', PyList v)])]) =
          Inr ((acc @ [(e, [(''dyna_prog_state_values'', PyList v)])]) @ map (\<lambda>(e, n, l, g, m).
                  (e, [(''dyna_prog_state_values'', PyList (the (idx (n, l, g))))])) zs)"
  proof (rule Cons.IH)
    fix e' n' l' g' m' assume "(e', n', l', g', m') \<in> set zs"
    then have "(e', n', l', g', m') \<in> set (z # zs)" by simp
    then show "\<exists>v. idx (n', l', g') = Some v" by (rule Cons.prems)
  qed
  then show ?case
    using v by (simp add: z index_get_def)
qed

lemma add_experiment_context_result:
  "\<exists>idx store'.
     build_index solve (map (dyna_prog_spec ces) experiments) dir store = (idx, store') \<and>
     add_experiment_context ces solve store experiments dir =
       Inr (map (\<lambda>e. (e, [(''dyna_prog_state_values'',
                          PyList (the (idx (baseline_key_of ces e))))])) experiments, store') \<and>
     (\<forall>e \<in> set experiments. \<exists>v. idx (baseline_key_of ces e) = Some v)"
proof -
  let ?specs = "map (dyna_prog_spec ces) experiments"
  obtain idx store' where b: "build_index solve ?specs dir store = (idx, store')"
    by (metis surj_pair)
  have cover: "\<And>n l g m. (n, l, g, m) \<in> set ?specs \<Longrightarrow> \<exists>v. idx (n, l, g) = Some v"
  proof -
    fix n l g m assume "(n, l, g, m) \<in> set ?specs"
    from build_index_loop_covers [OF this, of solve dir Map.empty store] b
    show "\<exists>v. idx (n, l, g) = Some v" by (simp add: build_index_def)
  qed
  have keys: "\<forall>e \<in> set experiments. \<exists>v. idx (baseline_key_of ces e) = Some v"
  proof
    fix e assume e: "e \<in> set experiments"
    obtain n l g m where d: "dyna_prog_spec ces e = (n, l, g, m)" by (metis prod_cases4)
    with e have "(n, l, g, m) \<in> set ?specs" by force
    from cover [OF this] d show "\<exists>v. idx (baseline_key_of ces e) = Some v"
      by (simp add: baseline_key_of_def)
  qed
  have zipped: "\<And>e n l g m. (e, n, l, g, m) \<in> set (zip experiments ?specs) \<Longrightarrow>
      \<exists>v. idx (n, l, g) = Some v"
  proof -
    fix e n l g m assume "(e, n, l, g, m) \<in> set (zip experiments ?specs)"
    then have "(n, l, g, m) \<in> set ?specs" by (rule set_zip_rightD)
    then show "\<exists>v. idx (n, l, g) = Some v" by (rule cover)
  qed
  have "map (\<lambda>(e, n, l, g, m). (e, [(''dyna_prog_state_values'', PyList (the (idx (n, l, g))))]))
          (zip experiments ?specs) =
        map (\<lambda>e. (e, [(''dyna_prog_state_values'', PyList (the (idx (baseline_key_of ces e))))]))
          experiments"
    by (induction experiments) (auto simp: baseline_key_of_def split: prod.splits)
  with context_loop_ok [of "zip experiments ?specs" idx "[]", OF zipped]
  have "context_loop idx (zip experiments ?specs) [] =
      Inr (map (\<lambda>e. (e, [(''dyna_prog_state_values'',
                          PyList (the (idx (baseline_key_of ces e))))])) experiments)"
    by simp
  with b keys show ?thesis
    by (simp add: add_experiment_context_def)
qed


lemma generated_task_origin:
  assumes "t \<in> set (generate_tasks_from_experiments_context_and_run_config rc eac num_runs prefix)"
  shows "\<exists>ec \<in> set eac. task_experiment t = fst ec \<and> task_context t = snd ec \<and>
           run_config t = rc \<and> run_id t < num_runs"
proof -
  from assms obtain i ec where m: "(i, ec) \<in> set (enumerate 0 eac)"
    and t: "t \<in> set (tasks_of_experiment rc num_runs prefix i ec)"
    by (auto simp: generate_tasks_from_experiments_context_and_run_config_def)
  from m have "ec \<in> set eac" by (auto simp: in_set_enumerate_eq)
  moreover from t have "task_experiment t = fst ec \<and> task_context t = snd ec \<and>
           run_config t = rc \<and> run_id t < num_runs"
    by (auto simp: tasks_of_experiment_def)
  ultimately show ?thesis by blast
qed

lemma dyna_prog_spec_eq:
  "dyna_prog_spec ces e =
     (env_name (ces (name (env_config e)) (args (env_config e))),
      level (ces (name (env_config e)) (args (env_config e))),
      discount_factor (learning_args e),
      mdp (ces (name (env_config e)) (args (env_config e))))"
  by (simp add: dyna_prog_spec_def Let_def)

lemma baseline_key_of_eq:
  "baseline_key_of ces e =
     (env_name (ces (name (env_config e)) (args (env_config e))),
      level (ces (name (env_config e)) (args (env_config e))),
      discount_factor (learning_args e))"
  by (simp add: baseline_key_of_def dyna_prog_spec_eq)

lemma build_index_loop_values:
  "fst (build_index_loop solve path specs idx store) (n, l, g) = Some v \<Longrightarrow>
     idx (n, l, g) = Some v \<or> store (path, n, l, g) = Some v \<or>
     (\<exists>m. (n, l, g, m) \<in> set specs \<and> v = solve m g)"
proof (induction specs arbitrary: idx store)
  case Nil
  then show ?case by simp
next
  case (Cons s specs)
  obtain n' l' g' m' where s: "s = (n', l', g', m')" by (cases s) auto
  show ?case
  proof (cases "idx (n', l', g')")
    case (Some w)
    with Cons.prems s have "fst (build_index_loop solve path specs idx store) (n, l, g) = Some v"
      by simp
    from Cons.IH [OF this] show ?thesis by auto
  next
    case None
    show ?thesis
    proof (cases "store (path, n', l', g')")
      case (Some w)
      with None Cons.prems s
      have "fst (build_index_loop solve path specs (idx((n', l', g') \<mapsto> w)) store) (n, l, g) = Some v"
        by simp
      from Cons.IH [OF this] Some show ?thesis by (auto split: if_splits)
    next
      case N2: None
      with None Cons.prems s
      have "fst (build_index_loop solve path specs (idx((n', l', g') \<mapsto> solve m' g'))
                   (store((path, n', l', g') \<mapsto> solve m' g'))) (n, l, g) = Some v"
        by simp
      from Cons.IH [OF this] s show ?thesis by (auto split: if_splits)
    qed
  qed
qed


lemma index_value_origin:
  assumes "build_index solve (map (dyna_prog_spec ces) experiments) dir store = (idx, store')"
    and "idx (baseline_key_of ces e0) = Some v"
  shows "store (dir, baseline_key_of ces e0) = Some v \<or>
         (\<exists>e \<in> set experiments. baseline_key_of ces e = baseline_key_of ces e0 \<and>
            v = solve (mdp (ces (name (env_config e)) (args (env_config e))))
                      (discount_factor (learning_args e)))"
proof -
  obtain n l g where k: "baseline_key_of ces e0 = (n, l, g)" by (metis prod_cases3)
  from assms k have "fst (build_index_loop solve dir (map (dyna_prog_spec ces) experiments)
                       Map.empty store) (n, l, g) = Some v"
    by (simp add: build_index_def)
  from build_index_loop_values [OF this]
  consider "store (dir, n, l, g) = Some v"
    | m where "(n, l, g, m) \<in> set (map (dyna_prog_spec ces) experiments)" "v = solve m g"
    by auto
  then show ?thesis
  proof cases
    case 1
    with k show ?thesis by simp
  next
    case 2
    from 2(1) obtain e where e: "e \<in> set experiments" "dyna_prog_spec ces e = (n, l, g, m)"
      by auto
    from e(2) have "baseline_key_of ces e = (n, l, g)"
      by (simp add: baseline_key_of_def)
    moreover from e(2) have "m = mdp (ces (name (env_config e)) (args (env_config e)))"
      "g = discount_factor (learning_args e)"
      by (simp_all add: dyna_prog_spec_eq)
    ultimately show ?thesis using e(1) 2(2) k by auto
  qed
qed

text \<open>
  C7. \<open>add_experiment_context\<close> succeeds and pairs every experiment, in order, with a
  context whose entry \<open>dyna_prog_state_values\<close> is the vector that the index's \<open>get\<close> returns
  for the experiment's key, as a plain list and not as a numeric array. The key is the name
  and the level of the experiment's environment spec and the experiment's discount factor;
  the vector was either stored for that key or is the solver's result for an experiment
  with that key. Every generated task carries the context of its experiment, so two tasks
  whose experiments have the same key carry the same vector.
\<close>

theorem baseline_list_in_every_context:
  fixes ces :: "string \<Rightarrow> (string \<times> int) list \<Rightarrow> 'm EnvSpec"
  defines "spec \<equiv> \<lambda>e. ces (name (env_config e)) (args (env_config e))"
  defines "key \<equiv> \<lambda>e. (env_name (spec e), level (spec e), discount_factor (learning_args e))"
  shows "\<exists>idx store' eac.
     build_index solve
       (map (\<lambda>e. (env_name (spec e), level (spec e), discount_factor (learning_args e),
                   mdp (spec e))) experiments) dir store = (idx, store') \<and>
     add_experiment_context ces solve store experiments dir = Inr (eac, store') \<and>
     map fst eac = experiments \<and>
     (\<forall>ec \<in> set eac.
        \<exists>v. index_get idx (env_name (spec (fst ec))) (level (spec (fst ec)))
               (discount_factor (learning_args (fst ec))) = Inr (NdArray v) \<and>
             snd ec = [(''dyna_prog_state_values'', PyList v)] \<and>
             (store (dir, key (fst ec)) = Some v \<or>
              (\<exists>e \<in> set experiments. key e = key (fst ec) \<and>
                 v = solve (mdp (spec e)) (discount_factor (learning_args e))))) \<and>
     (\<forall>t \<in> set (generate_tasks_from_experiments_context_and_run_config rc eac num_runs prefix).
        \<exists>v. index_get idx (env_name (spec (task_experiment t))) (level (spec (task_experiment t)))
               (discount_factor (learning_args (task_experiment t))) = Inr (NdArray v) \<and>
             task_context t = [(''dyna_prog_state_values'', PyList v)] \<and>
             map_of (task_context t) ''dyna_prog_state_values'' = Some (PyList v)) \<and>
     (\<forall>t \<in> set (generate_tasks_from_experiments_context_and_run_config rc eac num_runs prefix).
      \<forall>t' \<in> set (generate_tasks_from_experiments_context_and_run_config rc eac num_runs prefix).
        key (task_experiment t) = key (task_experiment t') \<longrightarrow>
        map_of (task_context t) ''dyna_prog_state_values'' =
          map_of (task_context t') ''dyna_prog_state_values'')"
proof -
  have key: "key = baseline_key_of ces"
    by (rule ext) (simp add: key_def spec_def baseline_key_of_eq)
  have specs: "map (\<lambda>e. (env_name (spec e), level (spec e), discount_factor (learning_args e),
                   mdp (spec e))) experiments = map (dyna_prog_spec ces) experiments"
    by (simp add: spec_def dyna_prog_spec_eq)
  from add_experiment_context_result [of solve ces experiments dir store]
  obtain idx store' where b:
    "build_index solve (map (dyna_prog_spec ces) experiments) dir store = (idx, store')"
    and a: "add_experiment_context ces solve store experiments dir =
       Inr (map (\<lambda>e. (e, [(''dyna_prog_state_values'',
                          PyList (the (idx (baseline_key_of ces e))))])) experiments, store')"
    and k: "\<forall>e \<in> set experiments. \<exists>v. idx (baseline_key_of ces e) = Some v"
    by blast
  define eac where "eac = map (\<lambda>e. (e, [(''dyna_prog_state_values'',
                          PyList (the (idx (baseline_key_of ces e))))])) experiments"
  let ?tasks = "generate_tasks_from_experiments_context_and_run_config rc eac num_runs prefix"
  have get: "index_get idx (env_name (spec e)) (level (spec e)) (discount_factor (learning_args e))
               = Inr (NdArray v)"
    if "idx (baseline_key_of ces e) = Some v" for e v
    using that by (simp add: index_get_def baseline_key_of_eq spec_def)
  have fsts: "map fst eac = experiments"
    by (simp add: eac_def comp_def)
  have pairs: "\<exists>v. idx (baseline_key_of ces (fst ec)) = Some v \<and>
                 snd ec = [(''dyna_prog_state_values'', PyList v)] \<and> fst ec \<in> set experiments"
    if "ec \<in> set eac" for ec
  proof -
    from that obtain e where e: "e \<in> set experiments"
      "ec = (e, [(''dyna_prog_state_values'', PyList (the (idx (baseline_key_of ces e))))])"
      by (auto simp: eac_def)
    from k e(1) obtain v where "idx (baseline_key_of ces e) = Some v" by blast
    with e show ?thesis by simp
  qed
  have 1: "\<forall>ec \<in> set eac.
        \<exists>v. index_get idx (env_name (spec (fst ec))) (level (spec (fst ec)))
               (discount_factor (learning_args (fst ec))) = Inr (NdArray v) \<and>
             snd ec = [(''dyna_prog_state_values'', PyList v)] \<and>
             (store (dir, key (fst ec)) = Some v \<or>
              (\<exists>e \<in> set experiments. key e = key (fst ec) \<and>
                 v = solve (mdp (spec e)) (discount_factor (learning_args e))))"
  proof
    fix ec assume "ec \<in> set eac"
    from pairs [OF this] obtain v where v: "idx (baseline_key_of ces (fst ec)) = Some v"
      "snd ec = [(''dyna_prog_state_values'', PyList v)]"
      by blast
    from index_value_origin [OF b v(1)]
    have "store (dir, key (fst ec)) = Some v \<or>
              (\<exists>e \<in> set experiments. key e = key (fst ec) \<and>
                 v = solve (mdp (spec e)) (discount_factor (learning_args e)))"
      by (simp add: key spec_def)
    with get [OF v(1)] v(2)
    show "\<exists>v. index_get idx (env_name (spec (fst ec))) (level (spec (fst ec)))
               (discount_factor (learning_args (fst ec))) = Inr (NdArray v) \<and>
             snd ec = [(''dyna_prog_state_values'', PyList v)] \<and>
             (store (dir, key (fst ec)) = Some v \<or>
              (\<exists>e \<in> set experiments. key e = key (fst ec) \<and>
                 v = solve (mdp (spec e)) (discount_factor (learning_args e))))"
      by blast
  qed
  have ctx: "\<exists>v. idx (baseline_key_of ces (task_experiment t)) = Some v \<and>
               task_context t = [(''dyna_prog_state_values'', PyList v)]"
    if "t \<in> set ?tasks" for t
  proof -
    from generated_task_origin [OF that] obtain ec where ec: "ec \<in> set eac"
      "task_experiment t = fst ec" "task_context t = snd ec"
      by blast
    from pairs [OF ec(1)] ec(2,3) show ?thesis by auto
  qed
  have 2: "\<forall>t \<in> set ?tasks.
        \<exists>v. index_get idx (env_name (spec (task_experiment t))) (level (spec (task_experiment t)))
               (discount_factor (learning_args (task_experiment t))) = Inr (NdArray v) \<and>
             task_context t = [(''dyna_prog_state_values'', PyList v)] \<and>
             map_of (task_context t) ''dyna_prog_state_values'' = Some (PyList v)"
  proof
    fix t assume "t \<in> set ?tasks"
    from ctx [OF this] obtain v where v: "idx (baseline_key_of ces (task_experiment t)) = Some v"
      "task_context t = [(''dyna_prog_state_values'', PyList v)]"
      by blast
    from get [OF v(1)] v(2)
    show "\<exists>v. index_get idx (env_name (spec (task_experiment t))) (level (spec (task_experiment t)))
               (discount_factor (learning_args (task_experiment t))) = Inr (NdArray v) \<and>
             task_context t = [(''dyna_prog_state_values'', PyList v)] \<and>
             map_of (task_context t) ''dyna_prog_state_values'' = Some (PyList v)"
      by simp
  qed
  have 3: "\<forall>t \<in> set ?tasks. \<forall>t' \<in> set ?tasks.
        key (task_experiment t) = key (task_experiment t') \<longrightarrow>
        map_of (task_context t) ''dyna_prog_state_values'' =
          map_of (task_context t') ''dyna_prog_state_values''"
  proof (intro ballI impI)
    fix t t' assume "t \<in> set ?tasks" "t' \<in> set ?tasks"
      and same: "key (task_experiment t) = key (task_experiment t')"
    from ctx [OF this(1)] ctx [OF this(2)] same
    show "map_of (task_context t) ''dyna_prog_state_values'' =
          map_of (task_context t') ''dyna_prog_state_values''"
      by (auto simp: key)
  qed
  from b have b': "build_index solve
       (map (\<lambda>e. (env_name (spec e), level (spec e), discount_factor (learning_args e),
                   mdp (spec e))) experiments) dir store = (idx, store')"
    by (simp only: specs)
  from a have a': "add_experiment_context ces solve store experiments dir = Inr (eac, store')"
    by (simp only: eac_def)
  from b' a' fsts 1 2 3 show ?thesis by blast
qed



theorem baseline_list_in_every_context_witness:
  "map_sum id fst
     (add_experiment_context (\<lambda>n a. \<lparr>env_name = n, level = (if a = [] then ''easy'' else ''hard''), mdp = (if n = ''maze'' then 4 else (9::real))\<rparr>)
        (\<lambda>m g. [m, g]) Map.empty
        [\<lparr>env_config = \<lparr>name = ''grid'', args = []\<rparr>, experiment_config = \<lparr>control_args = \<lparr>epsilon = 0, alpha = 0, gamma = 1\<rparr>, cpr_args = None\<rparr>, learning_args = \<lparr>discount_factor = 1\<rparr>\<rparr>,
         \<lparr>env_config = \<lparr>name = ''maze'', args = [(''size'', 4)]\<rparr>, experiment_config = \<lparr>control_args = \<lparr>epsilon = 0, alpha = 0, gamma = 0\<rparr>, cpr_args = None\<rparr>, learning_args = \<lparr>discount_factor = 0\<rparr>\<rparr>,
         \<lparr>env_config = \<lparr>name = ''grid'', args = []\<rparr>, experiment_config = \<lparr>control_args = \<lparr>epsilon = 1, alpha = 0, gamma = 1\<rparr>, cpr_args = None\<rparr>, learning_args = \<lparr>discount_factor = 1\<rparr>\<rparr>]
        ''assets'')
   = Inr [(\<lparr>env_config = \<lparr>name = ''grid'', args = []\<rparr>, experiment_config = \<lparr>control_args = \<lparr>epsilon = 0, alpha = 0, gamma = 1\<rparr>, cpr_args = None\<rparr>, learning_args = \<lparr>discount_factor = 1\<rparr>\<rparr>,
           [(''dyna_prog_state_values'', PyList [9, 1])]),
          (\<lparr>env_config = \<lparr>name = ''maze'', args = [(''size'', 4)]\<rparr>, experiment_config = \<lparr>control_args = \<lparr>epsilon = 0, alpha = 0, gamma = 0\<rparr>, cpr_args = None\<rparr>, learning_args = \<lparr>discount_factor = 0\<rparr>\<rparr>,
           [(''dyna_prog_state_values'', PyList [4, 0])]),
          (\<lparr>env_config = \<lparr>name = ''grid'', args = []\<rparr>, experiment_config = \<lparr>control_args = \<lparr>epsilon = 1, alpha = 0, gamma = 1\<rparr>, cpr_args = None\<rparr>, learning_args = \<lparr>discount_factor = 1\<rparr>\<rparr>,
           [(''dyna_prog_state_values'', PyList [9, 1])])]
   \<and> map (\<lambda>t. (run_id t, map_of (task_context t) ''dyna_prog_state_values''))
        (generate_tasks_from_experiments_context_and_run_config
           \<lparr>num_episodes = 1, log_episode_frequency = 1, output_dir = ''out''\<rparr>
           [(\<lparr>env_config = \<lparr>name = ''grid'', args = []\<rparr>, experiment_config = \<lparr>control_args = \<lparr>epsilon = 0, alpha = 0, gamma = 1\<rparr>, cpr_args = None\<rparr>, learning_args = \<lparr>discount_factor = 1\<rparr>\<rparr>,
             [(''dyna_prog_state_values'', PyList [9, 1])]),
            (\<lparr>env_config = \<lparr>name = ''maze'', args = [(''size'', 4)]\<rparr>, experiment_config = \<lparr>control_args = \<lparr>epsilon = 0, alpha = 0, gamma = 0\<rparr>, cpr_args = None\<rparr>, learning_args = \<lparr>discount_factor = 0\<rparr>\<rparr>,
             [(''dyna_prog_state_values'', PyList [4, 0])]),
            (\<lparr>env_config = \<lparr>name = ''grid'', args = []\<rparr>, experiment_config = \<lparr>control_args = \<lparr>epsilon = 1, alpha = 0, gamma = 1\<rparr>, cpr_args = None\<rparr>, learning_args = \<lparr>discount_factor = 1\<rparr>\<rparr>,
             [(''dyna_prog_state_values'', PyList [9, 1])])]
           1 ''p'')
      = [(0, Some (PyList [9, 1])), (0, Some (PyList [4, 0])), (0, Some (PyList [9, 1]))]"
  using baseline_list_in_every_context [of "(\<lambda>m g. [m, g])"
      "(\<lambda>n a. \<lparr>env_name = n, level = (if a = [] then ''easy'' else ''hard''), mdp = (if n = ''maze'' then 4 else (9::real))\<rparr>)"
      "[\<lparr>env_config = \<lparr>name = ''grid'', args = []\<rparr>, experiment_config = \<lparr>control_args = \<lparr>epsilon = 0, alpha = 0, gamma = 1\<rparr>, cpr_args = None\<rparr>, learning_args = \<lparr>discount_factor = 1\<rparr>\<rparr>,
        \<lparr>env_config = \<lparr>name = ''maze'', args = [(''size'', 4)]\<rparr>, experiment_config = \<lparr>control_args = \<lparr>epsilon = 0, alpha = 0, gamma = 0\<rparr>, cpr_args = None\<rparr>, learning_args = \<lparr>discount_factor = 0\<rparr>\<rparr>,
        \<lparr>env_config = \<lparr>name = ''grid'', args = []\<rparr>, experiment_config = \<lparr>control_args = \<lparr>epsilon = 1, alpha = 0, gamma = 1\<rparr>, cpr_args = None\<rparr>, learning_args = \<lparr>discount_factor = 1\<rparr>\<rparr>]"
      "''assets''" Map.empty
      "\<lparr>num_episodes = 1, log_episode_frequency = 1, output_dir = ''out''\<rparr>" 1 "''p''"]
  by (simp add: add_experiment_context_def build_index_def dyna_prog_spec_def index_get_def
      generate_tasks_from_experiments_context_and_run_config_def tasks_of_experiment_def)

section \<open>Generation and submission of the tasks\<close>

lemma length_create_experiments:
  "length (create_experiments envs cfgs) = length envs * length cfgs"
  by (induction envs) (simp_all add: create_experiments_def)

lemma create_experiments_product:
  "map (\<lambda>e. (env_config e, experiment_config e)) (create_experiments envs cfgs) =
     List.product envs cfgs"
  by (induction envs) (simp_all add: create_experiments_def comp_def)

lemma length_tasks_of_experiment:
  "length (tasks_of_experiment rc num_runs prefix counter ec) = num_runs"
  by (simp add: tasks_of_experiment_def)

lemma experiments_of_tasks_of_experiment:
  "map task_experiment (tasks_of_experiment rc num_runs prefix counter ec) =
     replicate num_runs (fst ec)"
  by (simp add: tasks_of_experiment_def comp_def map_replicate_const)

lemma length_generated_from:
  "length (concat (map (\<lambda>(counter, ec). tasks_of_experiment rc num_runs prefix counter ec)
             (enumerate k eac))) = length eac * num_runs"
  by (induction eac arbitrary: k) (simp_all add: length_tasks_of_experiment)

lemma experiments_of_generated_from:
  "map task_experiment
     (concat (map (\<lambda>(counter, ec). tasks_of_experiment rc num_runs prefix counter ec)
        (enumerate k eac))) = concat (map (\<lambda>ec. replicate num_runs (fst ec)) eac)"
  by (induction eac arbitrary: k) (simp_all add: experiments_of_tasks_of_experiment)

lemma length_generated:
  "length (generate_tasks_from_experiments_context_and_run_config rc eac num_runs prefix) =
     length eac * num_runs"
  by (simp add: generate_tasks_from_experiments_context_and_run_config_def
      length_generated_from)

lemma experiments_of_generated:
  "map task_experiment
     (generate_tasks_from_experiments_context_and_run_config rc eac num_runs prefix) =
     concat (map (replicate num_runs) (map fst eac))"
  by (simp add: generate_tasks_from_experiments_context_and_run_config_def
      experiments_of_generated_from comp_def)

lemma submit_all_acc:
  "submit_all remote p tasks acc =
     (acc @ map (\<lambda>i. (tasks ! i,
                 fst (remote (foldl (\<lambda>q t. snd (remote q t)) p (take i tasks)) (tasks ! i))))
              [0..<length tasks],
      foldl (\<lambda>q t. snd (remote q t)) p tasks)"
proof (induction tasks arbitrary: p acc)
  case Nil
  then show ?case by simp
next
  case (Cons t tasks)
  obtain h p' where r: "remote p t = (h, p')" by (metis surj_pair)
  show ?case
    using r by (simp add: Cons.IH map_upt_Suc del: upt_Suc)
qed

lemma submit_all_recording_pool:
  "submit_all (\<lambda>q t. (length q, q @ [t])) q0 tasks acc =
     (acc @ zip tasks [length q0..<length q0 + length tasks], q0 @ tasks)"
proof (induction tasks arbitrary: q0 acc)
  case Nil
  then show ?case by simp
next
  case (Cons t tasks)
  have "[length q0..<length q0 + length (t # tasks)] =
          length q0 # [Suc (length q0)..<Suc (length q0) + length tasks]"
    by (simp add: upt_rec)
  then show ?case
    by (simp add: Cons.IH del: upt_Suc)
qed


lemma add_experiment_context_succeeds:
  "\<exists>eac store'. add_experiment_context ces solve store experiments dir = Inr (eac, store') \<and>
     map fst eac = experiments"
proof -
  from add_experiment_context_result [of solve ces experiments dir store]
  obtain idx store' where
    "add_experiment_context ces solve store experiments dir =
       Inr (map (\<lambda>e. (e, [(''dyna_prog_state_values'',
                          PyList (the (idx (baseline_key_of ces e))))])) experiments, store')"
    by blast
  moreover have "map fst (map (\<lambda>e. (e, [(''dyna_prog_state_values'',
                          PyList (the (idx (baseline_key_of ces e))))])) experiments) = experiments"
    by (simp add: comp_def)
  ultimately show ?thesis by blast
qed

lemma create_tasks_steps:
  assumes "add_experiment_context ces solve store (create_experiments envs cfgs) dir =
             Inr (eac, store')"
    and "random_sample randbelow g
           (generate_tasks_from_experiments_context_and_run_config
              \<lparr>num_episodes = n_episodes, log_episode_frequency = log_frequency,
               output_dir = out_dir\<rparr> eac num_runs prefix)
           (length (generate_tasks_from_experiments_context_and_run_config
              \<lparr>num_episodes = n_episodes, log_episode_frequency = log_frequency,
               output_dir = out_dir\<rparr> eac num_runs prefix)) = Inr (shuffled, g')"
    and "submit_all remote p shuffled [] = (futures, p')"
  shows "create_tasks ces solve randbelow remote store g p envs cfgs num_runs n_episodes dir
           out_dir prefix log_frequency = Inr (futures, store', g', p')"
  using assms by (simp add: create_tasks_def)

text \<open>
  C3. \<open>create_tasks\<close> succeeds, and the number of tasks it generates, and of futures it
  returns, is the number of environments times the number of experiment configs times
  \<open>num_runs\<close>: the experiments are the full product of environments and configs, repeated
  pairs included, and each experiment gives \<open>num_runs\<close> tasks.
\<close>

theorem number_of_generated_tasks:
  "\<exists>eac store' futures g' p'.
     add_experiment_context ces solve store (create_experiments envs cfgs) dir =
       Inr (eac, store') \<and>
     create_tasks ces solve randbelow remote store g p envs cfgs num_runs n_episodes dir
       out_dir prefix log_frequency = Inr (futures, store', g', p') \<and>
     length (generate_tasks_from_experiments_context_and_run_config
               \<lparr>num_episodes = n_episodes, log_episode_frequency = log_frequency,
                output_dir = out_dir\<rparr> eac num_runs prefix)
       = length envs * length cfgs * num_runs \<and>
     length futures = length envs * length cfgs * num_runs \<and>
     map (\<lambda>e. (env_config e, experiment_config e)) (create_experiments envs cfgs) =
       List.product envs cfgs \<and>
     map task_experiment
       (generate_tasks_from_experiments_context_and_run_config
          \<lparr>num_episodes = n_episodes, log_episode_frequency = log_frequency,
           output_dir = out_dir\<rparr> eac num_runs prefix)
       = concat (map (replicate num_runs) (create_experiments envs cfgs))"
proof -
  let ?rc = "\<lparr>num_episodes = n_episodes, log_episode_frequency = log_frequency,
              output_dir = out_dir\<rparr>"
  from add_experiment_context_succeeds [of ces solve store "create_experiments envs cfgs" dir]
  obtain eac store' where a:
    "add_experiment_context ces solve store (create_experiments envs cfgs) dir =
       Inr (eac, store')"
    and f: "map fst eac = create_experiments envs cfgs"
    by blast
  let ?tasks = "generate_tasks_from_experiments_context_and_run_config ?rc eac num_runs prefix"
  from f have "length eac = length (create_experiments envs cfgs)"
    by (metis length_map)
  then have n: "length ?tasks = length envs * length cfgs * num_runs"
    by (simp add: length_generated length_create_experiments)
  from random_sample_length [of randbelow g ?tasks]
  obtain shuffled g' where s:
    "random_sample randbelow g ?tasks (length ?tasks) = Inr (shuffled, g')"
    and ls: "length shuffled = length ?tasks"
    by blast
  obtain futures p' where u: "submit_all remote p shuffled [] = (futures, p')"
    by (metis surj_pair)
  then have "length futures = length shuffled"
    by (auto simp: submit_all_acc)
  with ls n have lf: "length futures = length envs * length cfgs * num_runs" by simp
  have e: "map task_experiment ?tasks =
      concat (map (replicate num_runs) (create_experiments envs cfgs))"
    using f by (simp add: experiments_of_generated)
  from a create_tasks_steps [OF a s u] n lf create_experiments_product [of envs cfgs] e
  show ?thesis by blast
qed

text \<open>
  C6. With a random source that draws below the bound it is given, \<open>create_tasks\<close> submits
  every generated task exactly once, in the shuffled order: the tasks of the returned
  pairs are the shuffled list, which has the same multiset as the generated tasks (their
  number is environments times configs times \<open>num_runs\<close>); the i-th future is what
  \<open>evaluate.remote\<close> returns for the i-th shuffled task after the i tasks before it have
  been submitted, and it is paired with that task; the pool is left as these submissions,
  and no other, leave it. A pool that records what it is given has received exactly the
  shuffled tasks, in their order.
\<close>

theorem every_task_submitted_once_in_shuffled_order:
  assumes "\<And>g m. 0 < m \<Longrightarrow> fst (randbelow g m) < m"
  shows "\<exists>eac store' shuffled futures g' p'.
     add_experiment_context ces solve store (create_experiments envs cfgs) dir =
       Inr (eac, store') \<and>
     random_sample randbelow g
       (generate_tasks_from_experiments_context_and_run_config
          \<lparr>num_episodes = n_episodes, log_episode_frequency = log_frequency,
           output_dir = out_dir\<rparr> eac num_runs prefix)
       (length (generate_tasks_from_experiments_context_and_run_config
          \<lparr>num_episodes = n_episodes, log_episode_frequency = log_frequency,
           output_dir = out_dir\<rparr> eac num_runs prefix)) = Inr (shuffled, g') \<and>
     create_tasks ces solve randbelow remote store g p envs cfgs num_runs n_episodes dir
       out_dir prefix log_frequency = Inr (futures, store', g', p') \<and>
     mset (map fst futures) =
       mset (generate_tasks_from_experiments_context_and_run_config
          \<lparr>num_episodes = n_episodes, log_episode_frequency = log_frequency,
           output_dir = out_dir\<rparr> eac num_runs prefix) \<and>
     length futures = length envs * length cfgs * num_runs \<and>
     map fst futures = shuffled \<and>
     map snd futures =
       map (\<lambda>i. fst (remote (foldl (\<lambda>q t. snd (remote q t)) p (take i shuffled)) (shuffled ! i)))
         [0..<length shuffled] \<and>
     p' = foldl (\<lambda>q t. snd (remote q t)) p shuffled \<and>
     submit_all (\<lambda>q t. (length q, q @ [t])) [] shuffled [] =
       (zip shuffled [0..<length shuffled], shuffled)"
proof -
  let ?rc = "\<lparr>num_episodes = n_episodes, log_episode_frequency = log_frequency,
              output_dir = out_dir\<rparr>"
  from add_experiment_context_succeeds [of ces solve store "create_experiments envs cfgs" dir]
  obtain eac store' where a:
    "add_experiment_context ces solve store (create_experiments envs cfgs) dir =
       Inr (eac, store')"
    and f: "map fst eac = create_experiments envs cfgs"
    by blast
  let ?tasks = "generate_tasks_from_experiments_context_and_run_config ?rc eac num_runs prefix"
  from f have "length eac = length (create_experiments envs cfgs)"
    by (metis length_map)
  then have n: "length ?tasks = length envs * length cfgs * num_runs"
    by (simp add: length_generated length_create_experiments)
  from random_sample_perm [of randbelow g ?tasks] assms
  obtain shuffled g' where s:
    "random_sample randbelow g ?tasks (length ?tasks) = Inr (shuffled, g')"
    and ms: "mset shuffled = mset ?tasks"
    and ls: "length shuffled = length ?tasks"
    by blast
  let ?f = "\<lambda>q t. snd (remote q t)"
  let ?futures = "map (\<lambda>i. (shuffled ! i, fst (remote (foldl ?f p (take i shuffled)) (shuffled ! i))))
                    [0..<length shuffled]"
  have u: "submit_all remote p shuffled [] = (?futures, foldl ?f p shuffled)"
    by (simp add: submit_all_acc)
  have 2: "map fst ?futures = shuffled"
    by (simp add: comp_def map_nth)
  with ms have 0: "mset (map fst ?futures) = mset ?tasks" by simp
  have 1: "length ?futures = length envs * length cfgs * num_runs"
    using ls n by simp
  have 3: "map snd ?futures =
       map (\<lambda>i. fst (remote (foldl ?f p (take i shuffled)) (shuffled ! i))) [0..<length shuffled]"
    by (simp add: comp_def)
  have 4: "submit_all (\<lambda>q t. (length q, q @ [t])) [] shuffled [] =
       (zip shuffled [0..<length shuffled], shuffled)"
    using submit_all_recording_pool [of "[]" shuffled "[]"] by simp
  from a s create_tasks_steps [OF a s u] 0 1 2 3 4
  show ?thesis by blast
qed

theorem every_task_submitted_once_in_shuffled_order_witness:
  "map_sum id (\<lambda>(futures, store', g', p'). (map (\<lambda>(t, h). (run_id t, h)) futures, g', map run_id p'))
     (create_tasks (\<lambda>n a. \<lparr>env_name = n, level = ''easy'', mdp = (9::real)\<rparr>) (\<lambda>m g. [m, g])
        (\<lambda>g m. (g mod m, Suc g)) (\<lambda>q t. (length q, q @ [t]))
        Map.empty (7::nat) []
        [\<lparr>name = ''grid'', args = []\<rparr>]
        [\<lparr>control_args = \<lparr>epsilon = 0, alpha = 0, gamma = 1\<rparr>, cpr_args = None\<rparr>]
        3 10 ''assets'' ''out'' ''p'' 1)
   = Inr ([(1, 0), (0, 1), (2, 2)], 10, [1, 0, 2])
   \<and> mset [1, 0, 2::nat] = mset [0, 1, 2]"
proof -
  have rb: "\<And>g m. 0 < m \<Longrightarrow> fst ((\<lambda>g m. (g mod m, Suc g)) g m) < m"
    by simp
  have v: "map_sum id (\<lambda>(futures, store', g', p'). (map (\<lambda>(t, h). (run_id t, h)) futures, g', map run_id p'))
     (create_tasks (\<lambda>n a. \<lparr>env_name = n, level = ''easy'', mdp = (9::real)\<rparr>) (\<lambda>m g. [m, g])
        (\<lambda>g m. (g mod m, Suc g)) (\<lambda>q t. (length q, q @ [t]))
        Map.empty (7::nat) []
        [\<lparr>name = ''grid'', args = []\<rparr>]
        [\<lparr>control_args = \<lparr>epsilon = 0, alpha = 0, gamma = 1\<rparr>, cpr_args = None\<rparr>]
        3 10 ''assets'' ''out'' ''p'' 1)
   = Inr ([(1, 0), (0, 1), (2, 2)], 10, [1, 0, 2])"
    by code_simp
  have m: "mset [1, 0, 2::nat] = mset [0, 1, 2]"
    by simp
  from every_task_submitted_once_in_shuffled_order
      [where randbelow = "\<lambda>g m. (g mod m, Suc g)"
        and ces = "\<lambda>n a. \<lparr>env_name = n, level = ''easy'', mdp = (9::real)\<rparr>"
        and solve = "\<lambda>m g. [m, g]" and remote = "\<lambda>q t. (length q, q @ [t])"
        and store = Map.empty and g = "7::nat" and p = "[]"
        and envs = "[\<lparr>name = ''grid'', args = []\<rparr>]"
        and cfgs = "[\<lparr>control_args = \<lparr>epsilon = 0, alpha = 0, gamma = 1\<rparr>, cpr_args = None\<rparr>]"
        and num_runs = 3 and n_episodes = 10 and dir = "''assets''" and out_dir = "''out''"
        and prefix = "''p''" and log_frequency = 1, OF rb] v m
  show ?thesis by blast
qed

end
